theory Spec2Isabelle
  imports Complex_Main "HOL-Library.AList" "HOL-Library.Sublist"
begin

section \<open>Data model (models/index.js)\<close>

text \<open>
  Identifiers are the strings of \<^verbatim>\<open>uuidv4()\<close>; they are opaque, so the model draws them
  from a counter of the state (\<open>nextId\<close>): two calls never return the same identifier.
  Timestamps are the readings of \<^verbatim>\<open>new Date()\<close> in milliseconds. The wall clock is the
  environment's: \<open>clk k\<close> is the value of the \<open>k\<close>-th reading, and the state counts the
  readings made so far (\<open>tick\<close>). Quantities, prices and cash are integers.
\<close>

type_synonym uid = nat
type_synonym clock = "nat \<Rightarrow> int"

datatype side = Buy | Sell
datatype orderType = Limit | Market
datatype orderStatus = Open | Filled | Partial | Cancelled
datatype gameStatus = Lobby | Running | Ended

record config =
  gameDuration :: int
  products :: "string list"
  scrapValues :: "(string \<times> int) list"
  setValue :: int
  setRecipe :: "(string \<times> int) list"
  minOrderSize :: int
  maxOrderSize :: int

record game =
  gameId :: uid
  hostPlayerId :: uid
  gstatus :: gameStatus
  gconfig :: config
  playerIds :: "uid list"
  startTime :: "int option"
  endTime :: "int option"

text \<open>
  \<^verbatim>\<open>Game.getRemainingTime\<close>: \<open>now\<close> is \<^verbatim>\<open>Date.now()\<close>, in milliseconds, and the result is
  in seconds.
\<close>

definition getRemainingTime :: "game \<Rightarrow> int \<Rightarrow> real" where
  "getRemainingTime g now =
     (if gstatus g \<noteq> Running \<or> startTime g = None
      then real_of_int (gameDuration (gconfig g))
      else
        let elapsed = real_of_int (now - the (startTime g)) / 1000
        in max 0 (real_of_int (gameDuration (gconfig g)) - elapsed))"


subsection \<open>Player, Order, Trade\<close>

text \<open>
  A JavaScript object used as a dictionary (\<^verbatim>\<open>inventory\<close>, \<^verbatim>\<open>scrapValues\<close>, \<^verbatim>\<open>setRecipe\<close>)
  is an association list in key-insertion order: \<open>map_of\<close> reads a key and
  \<open>AList.update\<close> writes it (in place when the key exists, at the end otherwise).
  \<open>num\<close> is the number JavaScript uses for a price that may be \<^verbatim>\<open>null\<close>.
\<close>

record pnlBreakdown =
  pcash :: int
  completeSets :: int
  setsValue :: int
  scrapValue :: "int option"
  totalScore :: "int option"
  pnl :: "int option"

record player =
  playerId :: uid
  pgameId :: uid
  name :: string
  cash :: int
  inventory :: "(string \<times> int) list"
  openOrderIds :: "uid list"
  tradeHistory :: "uid list"
  setsFormed :: int
  initialCash :: int
  initialInventory :: "(string \<times> int) list"
  finalScore :: "int option option"
  playerBreakdown :: "pnlBreakdown option"

record order =
  orderId :: uid
  ogameId :: uid
  oplayerId :: uid
  playerName :: string
  product :: string
  side :: side
  orderType :: orderType
  quantity :: int
  remainingQuantity :: int
  price :: "int option"
  status :: orderStatus
  fills :: "(uid \<times> int \<times> int option \<times> int) list"
  createdAt :: int
  updatedAt :: int

record trade =
  tradeId :: uid
  tgameId :: uid
  buyOrderId :: uid
  sellOrderId :: uid
  buyerId :: uid
  sellerId :: uid
  tproduct :: string
  tquantity :: int
  tprice :: "int option"
  tvalue :: int
  executedAt :: int

definition num :: "int option \<Rightarrow> int" where
  "num p = (case p of None \<Rightarrow> 0 | Some v \<Rightarrow> v)"

definition lookup0 :: "(string \<times> int) list \<Rightarrow> string \<Rightarrow> int" where
  \<comment> \<open>\<^verbatim>\<open>obj[key] || 0\<close>\<close>
  "lookup0 obj k = (case map_of obj k of None \<Rightarrow> 0 | Some v \<Rightarrow> v)"

definition player_addOrder :: "player \<Rightarrow> uid \<Rightarrow> player" where
  "player_addOrder p oid =
     (if oid \<notin> set (openOrderIds p) then p\<lparr>openOrderIds := openOrderIds p @ [oid]\<rparr> else p)"

definition player_removeOrder :: "player \<Rightarrow> uid \<Rightarrow> player" where
  "player_removeOrder p oid = p\<lparr>openOrderIds := filter (\<lambda>i. i \<noteq> oid) (openOrderIds p)\<rparr>"

definition addTrade :: "player \<Rightarrow> uid \<Rightarrow> player" where
  "addTrade p tid = p\<lparr>tradeHistory := tradeHistory p @ [tid]\<rparr>"

text \<open>\<^verbatim>\<open>Order.fill\<close> reads the clock twice (readings \<open>t\<close> and \<open>t + 1\<close>), \<^verbatim>\<open>Order.cancel\<close> once.\<close>

definition fill :: "clock \<Rightarrow> nat \<Rightarrow> order \<Rightarrow> uid \<Rightarrow> int \<Rightarrow> int option \<Rightarrow> order" where
  "fill clk t ord tid qty prc =
     ord\<lparr>fills := fills ord @ [(tid, qty, prc, clk t)],
         remainingQuantity := remainingQuantity ord - qty,
         updatedAt := clk (t + 1),
         status := (if remainingQuantity ord - qty \<le> 0 then Filled else Partial)\<rparr>"

definition cancel :: "clock \<Rightarrow> nat \<Rightarrow> order \<Rightarrow> order" where
  "cancel clk t ord = ord\<lparr>status := Cancelled, updatedAt := clk t\<rparr>"

subsection \<open>OrderBook\<close>

text \<open>
  \<^verbatim>\<open>Array.prototype.sort\<close> with a comparator is a stable sort: \<open>x\<close> stays before \<open>y\<close>
  unless the comparator is positive on \<open>(x, y)\<close>. For a comparator that is a total preorder
  every stable sort returns the same array, so an insertion sort stands for it.
\<close>

fun insort_cmp :: "('a \<Rightarrow> 'a \<Rightarrow> int) \<Rightarrow> 'a \<Rightarrow> 'a list \<Rightarrow> 'a list" where
  "insort_cmp cmp x [] = [x]"
| "insort_cmp cmp x (y # ys) = (if cmp x y \<le> 0 then x # y # ys else y # insort_cmp cmp x ys)"

definition sort_cmp :: "('a \<Rightarrow> 'a \<Rightarrow> int) \<Rightarrow> 'a list \<Rightarrow> 'a list" where
  "sort_cmp cmp xs = foldr (insort_cmp cmp) xs []"

record orderBook =
  bids :: "order list"
  asks :: "order list"

definition emptyBook :: orderBook where
  "emptyBook = \<lparr>bids = [], asks = []\<rparr>"

definition isActive :: "order \<Rightarrow> bool" where
  "isActive ord \<longleftrightarrow> status ord = Open \<or> status ord = Partial"

definition bidCmp :: "order \<Rightarrow> order \<Rightarrow> int" where
  "bidCmp a b = (if price b \<noteq> price a then num (price b) - num (price a)
                 else createdAt a - createdAt b)"

definition askCmp :: "order \<Rightarrow> order \<Rightarrow> int" where
  "askCmp a b = (if price a \<noteq> price b then num (price a) - num (price b)
                 else createdAt a - createdAt b)"

definition addOrder :: "orderBook \<Rightarrow> order \<Rightarrow> orderBook" where
  "addOrder ob ord =
     (if side ord = Buy then ob\<lparr>bids := sort_cmp bidCmp (bids ob @ [ord])\<rparr>
      else ob\<lparr>asks := sort_cmp askCmp (asks ob @ [ord])\<rparr>)"

definition removeOrder :: "orderBook \<Rightarrow> uid \<Rightarrow> orderBook" where
  "removeOrder ob oid =
     ob\<lparr>bids := filter (\<lambda>x. orderId x \<noteq> oid) (bids ob),
        asks := filter (\<lambda>x. orderId x \<noteq> oid) (asks ob)\<rparr>"

definition getBestBid :: "orderBook \<Rightarrow> order option" where
  "getBestBid ob = (case filter isActive (bids ob) of [] \<Rightarrow> None | x # _ \<Rightarrow> Some x)"

definition getBestAsk :: "orderBook \<Rightarrow> order option" where
  "getBestAsk ob = (case filter isActive (asks ob) of [] \<Rightarrow> None | x # _ \<Rightarrow> Some x)"

definition cleanup :: "orderBook \<Rightarrow> orderBook" where
  "cleanup ob = ob\<lparr>bids := filter isActive (bids ob), asks := filter isActive (asks ob)\<rparr>"

text \<open>
  The book's arrays hold the order objects themselves. The model keeps a copy of each
  resting order in the book, so a mutation of a resting order (\<^verbatim>\<open>fill\<close>) is written to the
  book's copy as well: \<open>mutated ob ord\<close> replaces the entry that has the identifier of
  \<open>ord\<close>.
\<close>

definition mutated :: "orderBook \<Rightarrow> order \<Rightarrow> orderBook" where
  "mutated ob ord =
     ob\<lparr>bids := map (\<lambda>x. if orderId x = orderId ord then ord else x) (bids ob),
        asks := map (\<lambda>x. if orderId x = orderId ord then ord else x) (asks ob)\<rparr>"

subsection \<open>DataStore and engine state\<close>

text \<open>
  \<open>players\<close>, \<open>orders\<close> and \<open>trades\<close> are the maps of \<^verbatim>\<open>DataStore\<close> (\<open>players\<close> and
  \<open>trades\<close> in insertion order, as a JavaScript \<^verbatim>\<open>Map\<close> iterates), \<open>orderBooks\<close> is the
  map of \<^verbatim>\<open>MatchingEngine\<close>. \<^verbatim>\<open>savePlayer\<close> and \<^verbatim>\<open>saveOrder\<close> are the only writers of their
  maps, so an object is stored under its own identifier. A player in the store is a live
  object: \<open>updPlayer\<close> is a mutation of the object stored under an identifier, and it does
  nothing to the store when no object is stored there.
\<close>

record state =
  players :: "(uid \<times> player) list"
  orders :: "uid \<rightharpoonup> order"
  trades :: "trade list"
  orderBooks :: "string \<Rightarrow> orderBook"
  nextId :: nat
  tick :: nat

definition getPlayer :: "state \<Rightarrow> uid \<Rightarrow> player option" where
  "getPlayer s pid = map_of (players s) pid"

definition getOrder :: "state \<Rightarrow> uid \<Rightarrow> order option" where
  "getOrder s oid = orders s oid"

definition saveOrder :: "state \<Rightarrow> order \<Rightarrow> state" where
  "saveOrder s ord = s\<lparr>orders := (orders s)(orderId ord \<mapsto> ord)\<rparr>"

definition saveTrade :: "state \<Rightarrow> trade \<Rightarrow> state" where
  "saveTrade s t = s\<lparr>trades := trades s @ [t]\<rparr>"

definition updPlayer :: "uid \<Rightarrow> (player \<Rightarrow> player) \<Rightarrow> state \<Rightarrow> state" where
  "updPlayer pid f s =
     (case getPlayer s pid of
        None \<Rightarrow> s
      | Some p \<Rightarrow> s\<lparr>players := AList.update pid (f p) (players s)\<rparr>)"

definition updBook :: "string \<Rightarrow> (orderBook \<Rightarrow> orderBook) \<Rightarrow> state \<Rightarrow> state" where
  "updBook pr f s = s\<lparr>orderBooks := (orderBooks s)(pr := f (orderBooks s pr))\<rparr>"

text \<open>The sum of all participants' cash, and of their inventory of one product.\<close>

definition totalCash :: "state \<Rightarrow> int" where
  "totalCash s = sum_list (map (\<lambda>(k, p). cash p) (players s))"

definition totalInventory :: "state \<Rightarrow> string \<Rightarrow> int" where
  "totalInventory s pr = sum_list (map (\<lambda>(k, p). lookup0 (inventory p) pr) (players s))"

datatype error =
  InvalidProduct | QuantityOutOfBounds | LimitNeedsPositivePrice
  | InsufficientCash int int | InsufficientInventory int int
  | OrderNotFound | NotYourOrder | OrderAlready orderStatus
  | NoActiveGame

section \<open>Matching engine (engine/matchingEngine.js)\<close>

subsection \<open>executeTrade\<close>

text \<open>
  The settlement of \<^verbatim>\<open>executeTrade\<close>: four assignments, each to the live object of the
  buyer or of the seller, read again at each assignment (the two may be one object).
\<close>

definition settle :: "uid \<Rightarrow> uid \<Rightarrow> string \<Rightarrow> int \<Rightarrow> int \<Rightarrow> state \<Rightarrow> state" where
  "settle buyer seller pr qty tradeValue s =
     (let s1 = updPlayer buyer (\<lambda>p. p\<lparr>cash := cash p - tradeValue\<rparr>) s;
          s2 = updPlayer buyer
                 (\<lambda>p. p\<lparr>inventory := AList.update pr (lookup0 (inventory p) pr + qty) (inventory p)\<rparr>) s1;
          s3 = updPlayer seller (\<lambda>p. p\<lparr>cash := cash p + tradeValue\<rparr>) s2
      in updPlayer seller
           (\<lambda>p. p\<lparr>inventory := AList.update pr (lookup0 (inventory p) pr - qty) (inventory p)\<rparr>) s3)"

text \<open>
  The update of the two players' records after the fills: the trade joins both trade
  histories, and an order that is now filled leaves its owner's open-order set.
\<close>

definition history :: "uid \<Rightarrow> uid \<Rightarrow> order \<Rightarrow> order \<Rightarrow> uid \<Rightarrow> state \<Rightarrow> state" where
  "history buyer seller buyOrder sellOrder tid s =
     (let s1 = updPlayer buyer (\<lambda>p. addTrade p tid) s;
          s2 = updPlayer seller (\<lambda>p. addTrade p tid) s1;
          s3 = (if status buyOrder = Filled
                then updPlayer buyer (\<lambda>p. player_removeOrder p (orderId buyOrder)) s2
                else s2)
      in if status sellOrder = Filled
         then updPlayer seller (\<lambda>p. player_removeOrder p (orderId sellOrder)) s3
         else s3)"

text \<open>
  \<^verbatim>\<open>executeTrade(incomingOrder, restingOrder, incomingPlayer)\<close> returns the trade, or
  \<^verbatim>\<open>null\<close> (here \<open>None\<close>) when a player is missing or the resources are short. The
  incoming order is a local object of \<^verbatim>\<open>submitOrder\<close>, so the model returns it as
  mutated; the resting order is the book's object, mutated there. The clock is read
  five times: once by the \<^verbatim>\<open>Trade\<close> constructor and twice by each \<^verbatim>\<open>fill\<close>.
\<close>

definition executeTrade :: "clock \<Rightarrow> state \<Rightarrow> order \<Rightarrow> order \<Rightarrow> state \<times> order \<times> trade option" where
  "executeTrade clk s incomingOrder restingOrder =
     (let qty = min (remainingQuantity incomingOrder) (remainingQuantity restingOrder);
          prc = price restingOrder;
          buyOrder = (if side incomingOrder = Buy then incomingOrder else restingOrder);
          sellOrder = (if side incomingOrder = Buy then restingOrder else incomingOrder);
          buyer = oplayerId buyOrder;
          seller = oplayerId sellOrder
      in case getPlayer s buyer of
           None \<Rightarrow> (s, incomingOrder, None)
         | Some buyerObj \<Rightarrow>
        (case getPlayer s seller of
           None \<Rightarrow> (s, incomingOrder, None)
         | Some sellerObj \<Rightarrow>
             let tradeValue = qty * num prc in
             if cash buyerObj < tradeValue then (s, incomingOrder, None)
             else if lookup0 (inventory sellerObj) (product incomingOrder) < qty
             then (s, incomingOrder, None)
             else
               let s1 = settle buyer seller (product incomingOrder) qty tradeValue s;
                   t = \<lparr>tradeId = nextId s, tgameId = ogameId incomingOrder,
                        buyOrderId = orderId buyOrder, sellOrderId = orderId sellOrder,
                        buyerId = buyer, sellerId = seller,
                        tproduct = product incomingOrder, tquantity = qty, tprice = prc,
                        tvalue = qty * num prc, executedAt = clk (tick s)\<rparr>;
                   buyOrder' = fill clk (tick s + 1) buyOrder (tradeId t) qty prc;
                   sellOrder' = fill clk (tick s + 3) sellOrder (tradeId t) qty prc;
                   s2 = history buyer seller buyOrder' sellOrder' (tradeId t) s1;
                   s3 = saveTrade s2 t;
                   s4 = saveOrder (saveOrder s3 buyOrder') sellOrder';
                   restingOrder' = (if side incomingOrder = Buy then sellOrder' else buyOrder');
                   incomingOrder' = (if side incomingOrder = Buy then buyOrder' else sellOrder');
                   s5 = updBook (product incomingOrder) (\<lambda>ob. mutated ob restingOrder') s4
               in (s5\<lparr>nextId := nextId s + 1, tick := tick s + 5\<rparr>, incomingOrder', Some t)))"

subsection \<open>matchOrder\<close>

text \<open>
  The \<^verbatim>\<open>while\<close> loop of \<^verbatim>\<open>matchOrder\<close>, with the array \<^verbatim>\<open>trades\<close> as an argument. The
  loop has no bound of its own, so the function is partial: \<open>None\<close> is a loop that never
  leaves. Every \<^verbatim>\<open>break\<close> returns the current state, order and trades.
\<close>

partial_function (option) matchOrder_loop ::
  "clock \<Rightarrow> state \<Rightarrow> order \<Rightarrow> trade list \<Rightarrow> (state \<times> order \<times> trade list) option" where
  "matchOrder_loop clk s incomingOrder ts =
     (if remainingQuantity incomingOrder > 0 then
        (case (if side incomingOrder = Buy
               then getBestAsk (orderBooks s (product incomingOrder))
               else getBestBid (orderBooks s (product incomingOrder))) of
           None \<Rightarrow> Some (s, incomingOrder, ts)
         | Some opposingOrder \<Rightarrow>
             if oplayerId opposingOrder = oplayerId incomingOrder
             then Some (s, incomingOrder, ts)
             else if orderType incomingOrder = Limit \<and> side incomingOrder = Buy
                     \<and> num (price incomingOrder) < num (price opposingOrder)
             then Some (s, incomingOrder, ts)
             else if orderType incomingOrder = Limit \<and> side incomingOrder = Sell
                     \<and> num (price incomingOrder) > num (price opposingOrder)
             then Some (s, incomingOrder, ts)
             else
               (case executeTrade clk s incomingOrder opposingOrder of
                  (s', incomingOrder', t) \<Rightarrow>
                    matchOrder_loop clk (updBook (product incomingOrder) cleanup s') incomingOrder'
                      (case t of None \<Rightarrow> ts | Some t' \<Rightarrow> ts @ [t'])))
      else Some (s, incomingOrder, ts))"

declare matchOrder_loop.simps [code]

definition matchOrder :: "clock \<Rightarrow> state \<Rightarrow> order \<Rightarrow> (state \<times> order \<times> trade list) option" where
  "matchOrder clk s incomingOrder = matchOrder_loop clk s incomingOrder []"

subsection \<open>submitOrder and cancelOrder\<close>

fun estimate_loop :: "order list \<Rightarrow> int \<Rightarrow> int \<Rightarrow> int \<times> int" where
  "estimate_loop [] remaining cost = (remaining, cost)"
| "estimate_loop (ask # rest) remaining cost =
     (if remaining \<le> 0 then (remaining, cost)
      else let fillQty = min remaining (remainingQuantity ask)
           in estimate_loop rest (remaining - fillQty) (cost + fillQty * num (price ask)))"

definition estimateMarketBuyCost :: "state \<Rightarrow> string \<Rightarrow> int \<Rightarrow> int" where
  "estimateMarketBuyCost s pr qty =
     (case estimate_loop (filter isActive (asks (orderBooks s pr))) qty 0 of
        (remaining, cost) \<Rightarrow> if remaining > 0 then cost + remaining * 100 else cost)"

text \<open>
  \<open>restOrder\<close> is the pair \<^verbatim>\<open>orderBook.addOrder(order); player.addOrder(order.orderId)\<close> of
  \<^verbatim>\<open>submitOrder\<close>; \<^verbatim>\<open>player\<close> is the live object stored under the submitter's identifier.
\<close>

definition restOrder :: "state \<Rightarrow> order \<Rightarrow> state" where
  "restOrder s ord =
     updPlayer (oplayerId ord) (\<lambda>p. player_addOrder p (orderId ord))
       (updBook (product ord) (\<lambda>ob. addOrder ob ord) s)"

text \<open>
  The \<^verbatim>\<open>Order\<close> constructor, called in state \<open>s\<close>: it draws one identifier and reads the
  clock twice (\<^verbatim>\<open>createdAt\<close>, \<^verbatim>\<open>updatedAt\<close>).
\<close>

definition newOrder ::
  "clock \<Rightarrow> state \<Rightarrow> uid \<Rightarrow> uid \<Rightarrow> string \<Rightarrow> string \<Rightarrow> side \<Rightarrow> orderType \<Rightarrow> int \<Rightarrow> int option
     \<Rightarrow> order" where
  "newOrder clk s gid pid pname pr sd ty qty prc =
     \<lparr>orderId = nextId s, ogameId = gid, oplayerId = pid, playerName = pname, product = pr,
      side = sd, orderType = ty, quantity = qty, remainingQuantity = qty, price = prc,
      status = Open, fills = [], createdAt = clk (tick s), updatedAt = clk (tick s + 1)\<rparr>"

text \<open>
  \<^verbatim>\<open>submitOrder(gameId, player, product, side, orderType, quantity, price)\<close>. The argument
  \<open>pl\<close> is the player object as the caller read it from the store; the validation reads
  it before anything is mutated. The result is the new state with the error, or with the
  order and the trades; \<open>None\<close> when the matching loop never leaves.
\<close>

definition submitOrder ::
  "config \<Rightarrow> clock \<Rightarrow> state \<Rightarrow> uid \<Rightarrow> player \<Rightarrow> string \<Rightarrow> side \<Rightarrow> orderType \<Rightarrow> int \<Rightarrow> int option
     \<Rightarrow> (state \<times> (error + order \<times> trade list)) option" where
  "submitOrder cfg clk s gid pl pr sd ty qty prc =
     (if pr \<notin> set (products cfg) then Some (s, Inl InvalidProduct)
      else if qty < minOrderSize cfg \<or> qty > maxOrderSize cfg
      then Some (s, Inl QuantityOutOfBounds)
      else if ty = Limit \<and> (prc = None \<or> num prc \<le> 0)
      then Some (s, Inl LimitNeedsPositivePrice)
      else if sd = Buy
              \<and> cash pl < (if ty = Limit then qty * num prc else estimateMarketBuyCost s pr qty)
      then Some (s, Inl (InsufficientCash
                   (if ty = Limit then qty * num prc else estimateMarketBuyCost s pr qty) (cash pl)))
      else if sd \<noteq> Buy \<and> lookup0 (inventory pl) pr < qty
      then Some (s, Inl (InsufficientInventory qty (lookup0 (inventory pl) pr)))
      else
        let ord = newOrder clk s gid (playerId pl) (name pl) pr sd ty qty prc;
            s0 = s\<lparr>nextId := nextId s + 1, tick := tick s + 2\<rparr>
        in case matchOrder clk s0 ord of
             None \<Rightarrow> None
           | Some (s1, ord1, ts) \<Rightarrow>
               if remainingQuantity ord1 > 0 \<and> ty = Limit
               then Some (saveOrder (restOrder s1 ord1) ord1, Inr (ord1, ts))
               else if remainingQuantity ord1 > 0 \<and> ty = Market
               then
                 let ord2 = ord1\<lparr>price := Some (if sd = Buy then 999999 else 1),
                                  orderType := Limit\<rparr>
                 in Some (saveOrder (restOrder s1 ord2) ord2, Inr (ord2, ts))
               else Some (saveOrder s1 ord1, Inr (ord1, ts)))"

text \<open>
  \<^verbatim>\<open>cancelOrder(orderId, playerId)\<close>. The order is the object stored under \<open>oid\<close>;
  \<^verbatim>\<open>order.cancel()\<close> mutates it there, and \<^verbatim>\<open>saveOrder\<close> stores it under its own identifier.
\<close>

definition cancelOrder :: "clock \<Rightarrow> state \<Rightarrow> uid \<Rightarrow> uid \<Rightarrow> state \<times> (error + order)" where
  "cancelOrder clk s oid pid =
     (case getOrder s oid of
        None \<Rightarrow> (s, Inl OrderNotFound)
      | Some ord \<Rightarrow>
          if oplayerId ord \<noteq> pid then (s, Inl NotYourOrder)
          else if status ord = Filled \<or> status ord = Cancelled
          then (s, Inl (OrderAlready (status ord)))
          else
            let s1 = updBook (product ord) (\<lambda>ob. removeOrder ob oid) s;
                ord' = cancel clk (tick s) ord;
                s2 = s1\<lparr>orders := (orders s1)(oid \<mapsto> ord'), tick := tick s + 1\<rparr>;
                s3 = updPlayer pid (\<lambda>p. player_removeOrder p oid) s2
            in (saveOrder s3 ord', Inr ord'))"

section \<open>Scoring (Player, GameManager.endGame)\<close>






record entry =
  entryPlayerId :: uid
  entryName :: string
  entryScore :: pnlBreakdown

record rankedEntry = entry +
  rank :: nat




definition withRanks :: "entry list \<Rightarrow> rankedEntry list" where
  "withRanks es =
     map (\<lambda>(i, e). \<lparr>entryPlayerId = entryPlayerId e, entryName = entryName e,
                     entryScore = entryScore e, rank = i + 1\<rparr>)
       (enumerate 0 es)"



section \<open>Notions used in the statements\<close>

text \<open>
  The parts of one iteration of the matching loop: the opposing order it peeks, the tests
  that let it go on to \<^verbatim>\<open>executeTrade\<close> (not the submitter's own order, price compatible
  for a limit order), the iteration that goes on, the iteration that leaves the loop, and
  the state after \<^verbatim>\<open>orderBook.cleanup()\<close>.
\<close>

definition bestOpposing :: "state \<Rightarrow> order \<Rightarrow> order option" where
  "bestOpposing s inc =
     (if side inc = Buy then getBestAsk (orderBooks s (product inc))
      else getBestBid (orderBooks s (product inc)))"

definition matchable :: "order \<Rightarrow> order \<Rightarrow> bool" where
  "matchable inc opp \<longleftrightarrow>
     oplayerId opp \<noteq> oplayerId inc
     \<and> \<not> (orderType inc = Limit \<and> side inc = Buy \<and> num (price inc) < num (price opp))
     \<and> \<not> (orderType inc = Limit \<and> side inc = Sell \<and> num (price inc) > num (price opp))"

definition continues :: "state \<Rightarrow> order \<Rightarrow> order \<Rightarrow> bool" where
  "continues s inc opp \<longleftrightarrow>
     remainingQuantity inc > 0 \<and> bestOpposing s inc = Some opp \<and> matchable inc opp"

definition stops :: "state \<Rightarrow> order \<Rightarrow> bool" where
  "stops s inc \<longleftrightarrow>
     remainingQuantity inc \<le> 0 \<or> bestOpposing s inc = None
     \<or> (\<exists>opp. bestOpposing s inc = Some opp \<and> \<not> matchable inc opp)"

definition afterTrade :: "order \<Rightarrow> state \<Rightarrow> state" where
  "afterTrade inc s = updBook (product inc) cleanup s"

text \<open>
  The re-check of \<^verbatim>\<open>executeTrade\<close> fails: both players are found, and the buyer's cash
  is below quantity times price or the seller's inventory of the product is below the
  quantity.
\<close>

definition recheckFails :: "state \<Rightarrow> order \<Rightarrow> order \<Rightarrow> bool" where
  "recheckFails s inc rst \<longleftrightarrow>
     (let qty = min (remainingQuantity inc) (remainingQuantity rst);
          buyer = oplayerId (if side inc = Buy then inc else rst);
          seller = oplayerId (if side inc = Buy then rst else inc)
      in \<exists>b sl. getPlayer s buyer = Some b \<and> getPlayer s seller = Some sl
           \<and> (cash b < qty * num (price rst) \<or> lookup0 (inventory sl) (product inc) < qty))"

text \<open>The validation of \<^verbatim>\<open>submitOrder\<close> passes.\<close>

definition valid ::
  "config \<Rightarrow> state \<Rightarrow> player \<Rightarrow> string \<Rightarrow> side \<Rightarrow> orderType \<Rightarrow> int \<Rightarrow> int option \<Rightarrow> bool" where
  "valid cfg s pl pr sd ty qty prc \<longleftrightarrow>
     pr \<in> set (products cfg) \<and> minOrderSize cfg \<le> qty \<and> qty \<le> maxOrderSize cfg
     \<and> (ty = Limit \<longrightarrow> (\<exists>v. prc = Some v \<and> 0 < v))
     \<and> (sd = Buy \<longrightarrow>
          (if ty = Limit then qty * num prc else estimateMarketBuyCost s pr qty) \<le> cash pl)
     \<and> (sd = Sell \<longrightarrow> qty \<le> lookup0 (inventory pl) pr)"

text \<open>The orders on the book of a product.\<close>

definition bookOrders :: "state \<Rightarrow> string \<Rightarrow> order set" where
  "bookOrders s pr = set (bids (orderBooks s pr)) \<union> set (asks (orderBooks s pr))"

text \<open>Every order on a book is a limit order.\<close>

definition allLimit :: "state \<Rightarrow> bool" where
  "allLimit s \<longleftrightarrow>
     (\<forall>pr. \<forall>x \<in> set (bids (orderBooks s pr)) \<union> set (asks (orderBooks s pr)). orderType x = Limit)"

text \<open>No stored trade has the same participant as buyer and as seller.\<close>

definition noSelfTrade :: "trade list \<Rightarrow> bool" where
  "noSelfTrade ts \<longleftrightarrow> (\<forall>t \<in> set ts. buyerId t \<noteq> sellerId t)"

section \<open>Example data\<close>

text \<open>
  The configuration of the end-to-end scenarios, the \<^verbatim>\<open>Player\<close> constructor, an engine
  with empty books, and two clocks: one that advances at every reading, and one whose
  readings all fall in the same millisecond.
\<close>

definition exampleConfig :: config where
  "exampleConfig =
     \<lparr>gameDuration = 180, products = [''bread'', ''veggies'', ''cheese'', ''meat''],
      scrapValues = [(''bread'', 2), (''veggies'', 4), (''cheese'', 6), (''meat'', 8)],
      setValue = 30,
      setRecipe = [(''bread'', 1), (''veggies'', 1), (''cheese'', 1), (''meat'', 1)],
      minOrderSize = 1, maxOrderSize = 100\<rparr>"

definition newPlayer :: "uid \<Rightarrow> uid \<Rightarrow> string \<Rightarrow> int \<Rightarrow> (string \<times> int) list \<Rightarrow> player" where
  "newPlayer i gid n startingCash startingInventory =
     \<lparr>playerId = i, pgameId = gid, name = n, cash = startingCash,
      inventory = startingInventory, openOrderIds = [], tradeHistory = [], setsFormed = 0,
      initialCash = startingCash, initialInventory = startingInventory,
      finalScore = None, playerBreakdown = None\<rparr>"

definition newState :: "(uid \<times> player) list \<Rightarrow> nat \<Rightarrow> state" where
  "newState ps n = \<lparr>players = ps, orders = Map.empty, trades = [],
                     orderBooks = (\<lambda>_. emptyBook), nextId = n, tick = 0\<rparr>"

definition wallClock :: clock where
  "wallClock k = 1000 + int k"

definition sameMillisecond :: clock where
  "sameMillisecond k = 1000"


definition alice :: player where
  "alice = newPlayer 1 0 ''alice'' 100 [(''bread'', 10), (''veggies'', 0), (''cheese'', 0), (''meat'', 0)]"

definition bob :: player where
  "bob = newPlayer 2 0 ''bob'' 100 [(''bread'', 0), (''veggies'', 0), (''cheese'', 0), (''meat'', 0)]"

text \<open>A limit order, as the \<^verbatim>\<open>Order\<close> constructor builds it at clock reading \<open>t\<close>.\<close>

definition limitOrder :: "uid \<Rightarrow> player \<Rightarrow> string \<Rightarrow> side \<Rightarrow> int \<Rightarrow> int \<Rightarrow> int \<Rightarrow> order" where
  "limitOrder i pl pr sd qty prc t =
     \<lparr>orderId = i, ogameId = 0, oplayerId = playerId pl, playerName = name pl, product = pr,
      side = sd, orderType = Limit, quantity = qty, remainingQuantity = qty,
      price = Some prc, status = Open, fills = [], createdAt = t, updatedAt = t + 1\<rparr>"

text \<open>
  \<open>restingState\<close>: alice's order 10 (sell 5 bread at 3) rests on the book.
  \<open>filledState\<close>: the same order after it has been filled.
\<close>

definition restingState :: state where
  "restingState =
     (newState [(1, alice\<lparr>openOrderIds := [10]\<rparr>), (2, bob)] 11)
       \<lparr>tick := 2, orders := [10 \<mapsto> limitOrder 10 alice ''bread'' Sell 5 3 1000],
        orderBooks := (\<lambda>_. emptyBook)
          (''bread'' := \<lparr>bids = [], asks = [limitOrder 10 alice ''bread'' Sell 5 3 1000]\<rparr>)\<rparr>"

definition filledState :: state where
  "filledState =
     (newState [(1, alice), (2, bob)] 11)
       \<lparr>tick := 2, orders := [10 \<mapsto> (limitOrder 10 alice ''bread'' Sell 5 3 1000)
                             \<lparr>remainingQuantity := 0, status := Filled\<rparr>]\<rparr>"

text \<open>
  carol has cash 10 and two resting bids of 10 each (\<open>carolBids\<close>); after dave sells her
  the bread (\<open>breadTrade\<close>) her cash is 0 and her bid for veggies still rests
  (\<open>overdrawn\<close>).
\<close>

definition carol :: player where
  "carol = newPlayer 3 0 ''carol'' 10 [(''bread'', 0), (''veggies'', 0), (''cheese'', 0), (''meat'', 0)]"

definition dave :: player where
  "dave = newPlayer 4 0 ''dave'' 100 [(''bread'', 1), (''veggies'', 1), (''cheese'', 0), (''meat'', 0)]"

definition carolBids :: state where
  "carolBids =
     \<lparr>players = [(3, carol\<lparr>openOrderIds := [20, 21]\<rparr>), (4, dave)],
      orders = [20 \<mapsto> limitOrder 20 carol ''bread'' Buy 1 10 1000,
                21 \<mapsto> limitOrder 21 carol ''veggies'' Buy 1 10 1002],
      trades = [],
      orderBooks = (\<lambda>_. emptyBook)
        (''bread'' := \<lparr>bids = [limitOrder 20 carol ''bread'' Buy 1 10 1000], asks = []\<rparr>,
         ''veggies'' := \<lparr>bids = [limitOrder 21 carol ''veggies'' Buy 1 10 1002], asks = []\<rparr>),
      nextId = 22, tick = 4\<rparr>"

definition breadTrade :: trade where
  "breadTrade = \<lparr>tradeId = 23, tgameId = 0, buyOrderId = 20, sellOrderId = 22, buyerId = 3,
                  sellerId = 4, tproduct = ''bread'', tquantity = 1, tprice = Some 10,
                  tvalue = 10, executedAt = 1006\<rparr>"

definition overdrawn :: state where
  "overdrawn =
     \<lparr>players =
        [(3, carol\<lparr>cash := 0,
                   inventory := [(''bread'', 1), (''veggies'', 0), (''cheese'', 0), (''meat'', 0)],
                   openOrderIds := [21], tradeHistory := [23]\<rparr>),
         (4, dave\<lparr>cash := 110,
                  inventory := [(''bread'', 0), (''veggies'', 1), (''cheese'', 0), (''meat'', 0)],
                  tradeHistory := [23]\<rparr>)],
      orders = [20 \<mapsto> fill wallClock 7 (limitOrder 20 carol ''bread'' Buy 1 10 1000) 23 1 (Some 10),
                21 \<mapsto> limitOrder 21 carol ''veggies'' Buy 1 10 1002,
                22 \<mapsto> fill wallClock 9 (limitOrder 22 dave ''bread'' Sell 1 10 1004) 23 1 (Some 10)],
      trades = [breadTrade],
      orderBooks = (\<lambda>_. emptyBook)
        (''bread'' := \<lparr>bids = [], asks = []\<rparr>,
         ''veggies'' := \<lparr>bids = [limitOrder 21 carol ''veggies'' Buy 1 10 1002], asks = []\<rparr>),
      nextId = 24, tick = 11\<rparr>"

text \<open>
  Two sell orders of alice for 3 bread at 7, submitted in the same millisecond: the states
  after the first (\<open>oneAsk\<close>) and after the second (\<open>twoAsks\<close>).
\<close>

definition tiedAsk :: "uid \<Rightarrow> order" where
  "tiedAsk i = (limitOrder i alice ''bread'' Sell 3 7 1000)\<lparr>updatedAt := 1000\<rparr>"

definition oneAsk :: state where
  "oneAsk =
     \<lparr>players = [(1, alice\<lparr>openOrderIds := [10]\<rparr>), (2, bob)],
      orders = [10 \<mapsto> tiedAsk 10], trades = [],
      orderBooks = (\<lambda>_. emptyBook)(''bread'' := \<lparr>bids = [], asks = [tiedAsk 10]\<rparr>),
      nextId = 11, tick = 2\<rparr>"

definition twoAsks :: state where
  "twoAsks =
     \<lparr>players = [(1, alice\<lparr>openOrderIds := [10, 11]\<rparr>), (2, bob)],
      orders = [10 \<mapsto> tiedAsk 10, 11 \<mapsto> tiedAsk 11], trades = [],
      orderBooks = (\<lambda>_. emptyBook)(''bread'' := \<lparr>bids = [], asks = [tiedAsk 10, tiedAsk 11]\<rparr>),
      nextId = 12, tick = 4\<rparr>"





section \<open>Basic facts about the store\<close>

lemma updPlayer_fields [simp]:
  "orders (updPlayer pid f s) = orders s"
  "trades (updPlayer pid f s) = trades s"
  "orderBooks (updPlayer pid f s) = orderBooks s"
  "nextId (updPlayer pid f s) = nextId s"
  "tick (updPlayer pid f s) = tick s"
  by (simp_all add: updPlayer_def split: option.split)

lemma getPlayer_updPlayer:
  "getPlayer (updPlayer pid f s) q
     = (if q = pid then map_option f (getPlayer s pid) else getPlayer s q)"
  by (simp add: updPlayer_def getPlayer_def update_conv' split: option.split)

lemma updBook_fields [simp]:
  "players (updBook pr f s) = players s"
  "orders (updBook pr f s) = orders s"
  "trades (updBook pr f s) = trades s"
  "nextId (updBook pr f s) = nextId s"
  "tick (updBook pr f s) = tick s"
  "orderBooks (updBook pr f s) q = (if q = pr then f (orderBooks s pr) else orderBooks s q)"
  by (simp_all add: updBook_def)

lemma getPlayer_updBook [simp]: "getPlayer (updBook pr f s) = getPlayer s"
  by (simp add: getPlayer_def fun_eq_iff)

lemma saveOrder_fields [simp]:
  "players (saveOrder s ord) = players s"
  "trades (saveOrder s ord) = trades s"
  "orderBooks (saveOrder s ord) = orderBooks s"
  "nextId (saveOrder s ord) = nextId s"
  "tick (saveOrder s ord) = tick s"
  "orders (saveOrder s ord) = (orders s)(orderId ord \<mapsto> ord)"
  by (simp_all add: saveOrder_def)

lemma getPlayer_saveOrder [simp]: "getPlayer (saveOrder s ord) = getPlayer s"
  by (simp add: getPlayer_def fun_eq_iff)

lemma saveTrade_fields [simp]:
  "players (saveTrade s t) = players s"
  "orders (saveTrade s t) = orders s"
  "orderBooks (saveTrade s t) = orderBooks s"
  "nextId (saveTrade s t) = nextId s"
  "tick (saveTrade s t) = tick s"
  "trades (saveTrade s t) = trades s @ [t]"
  by (simp_all add: saveTrade_def)

lemma getPlayer_saveTrade [simp]: "getPlayer (saveTrade s t) = getPlayer s"
  by (simp add: getPlayer_def fun_eq_iff)

lemma map_update_same_image:
  "map_of al k = Some v0 \<Longrightarrow> g (k, v) = g (k, v0) \<Longrightarrow> map g (AList.update k v al) = map g al"
  by (induction al) (auto split: if_splits)

lemma updPlayer_projection:
  assumes "\<And>p. g (pid, f p) = g (pid, p)"
  shows "map g (players (updPlayer pid f s)) = map g (players s)"
  using assms
  by (auto simp: updPlayer_def getPlayer_def intro: map_update_same_image split: option.split)

section \<open>Remaining time\<close>

text \<open>
  C10. A session that is not running (in the lobby, or ended) reports the full configured
  duration, whatever the clock says; a running session with a start time reports the
  duration minus the elapsed seconds, never less than 0.
\<close>

theorem getRemainingTime_not_running:
  "(gstatus g \<noteq> Running \<longrightarrow> getRemainingTime g now = real_of_int (gameDuration (gconfig g)))
   \<and> (gstatus g = Running \<and> startTime g = Some start \<longrightarrow>
        getRemainingTime g now
          = max 0 (real_of_int (gameDuration (gconfig g)) - real_of_int (now - start) / 1000)
        \<and> 0 \<le> getRemainingTime g now)"
  by (simp add: getRemainingTime_def Let_def)

theorem getRemainingTime_not_running_witness:
  "getRemainingTime \<lparr>gameId = 0, hostPlayerId = 0, gstatus = Ended,
       gconfig = \<lparr>gameDuration = 180, products = [], scrapValues = [], setValue = 30,
                  setRecipe = [], minOrderSize = 1, maxOrderSize = 100\<rparr>,
       playerIds = [], startTime = Some 0, endTime = Some 200000\<rparr> 500000 = 180
   \<and> getRemainingTime \<lparr>gameId = 0, hostPlayerId = 0, gstatus = Running,
       gconfig = \<lparr>gameDuration = 180, products = [], scrapValues = [], setValue = 30,
                  setRecipe = [], minOrderSize = 1, maxOrderSize = 100\<rparr>,
       playerIds = [], startTime = Some 0, endTime = None\<rparr> 60000 = 120"
  using getRemainingTime_not_running
    [of "\<lparr>gameId = 0, hostPlayerId = 0, gstatus = Ended,
       gconfig = \<lparr>gameDuration = 180, products = [], scrapValues = [], setValue = 30,
                  setRecipe = [], minOrderSize = 1, maxOrderSize = 100\<rparr>,
       playerIds = [], startTime = Some 0, endTime = Some 200000\<rparr>" 500000]
    getRemainingTime_not_running
    [of "\<lparr>gameId = 0, hostPlayerId = 0, gstatus = Running,
       gconfig = \<lparr>gameDuration = 180, products = [], scrapValues = [], setValue = 30,
                  setRecipe = [], minOrderSize = 1, maxOrderSize = 100\<rparr>,
       playerIds = [], startTime = Some 0, endTime = None\<rparr>" 60000 0]
  by simp

section \<open>Validation\<close>

lemma submitOrder_valid:
  assumes "valid cfg s pl pr sd ty qty prc"
  shows "submitOrder cfg clk s gid pl pr sd ty qty prc =
     (case matchOrder clk (s\<lparr>nextId := nextId s + 1, tick := tick s + 2\<rparr>)
             (newOrder clk s gid (playerId pl) (name pl) pr sd ty qty prc) of
             None \<Rightarrow> None
           | Some (s1, ord1, ts) \<Rightarrow>
               if remainingQuantity ord1 > 0 \<and> ty = Limit
               then Some (saveOrder (restOrder s1 ord1) ord1, Inr (ord1, ts))
               else if remainingQuantity ord1 > 0 \<and> ty = Market
               then Some (saveOrder (restOrder s1
                            (ord1\<lparr>price := Some (if sd = Buy then 999999 else 1), orderType := Limit\<rparr>))
                            (ord1\<lparr>price := Some (if sd = Buy then 999999 else 1), orderType := Limit\<rparr>),
                          Inr (ord1\<lparr>price := Some (if sd = Buy then 999999 else 1), orderType := Limit\<rparr>, ts))
               else Some (saveOrder s1 ord1, Inr (ord1, ts)))"
proof -
  have c1: "\<not> pr \<notin> set (products cfg)" and c2: "\<not> (qty < minOrderSize cfg \<or> qty > maxOrderSize cfg)"
    using assms by (auto simp: valid_def)
  have c3: "\<not> (ty = Limit \<and> (prc = None \<or> num prc \<le> 0))"
    using assms by (auto simp: valid_def num_def)
  have c4: "\<not> (sd = Buy
              \<and> cash pl < (if ty = Limit then qty * num prc else estimateMarketBuyCost s pr qty))"
    using assms by (auto simp: valid_def)
  have c5: "\<not> (sd \<noteq> Buy \<and> lookup0 (inventory pl) pr < qty)"
    using assms by (cases sd) (auto simp: valid_def)
  show ?thesis
    unfolding submitOrder_def Let_def
    by (simp only: c1 c2 c3 c4 c5 if_False)
qed

lemma submitOrder_invalid:
  assumes "\<not> valid cfg s pl pr sd ty qty prc"
  shows "\<exists>e. submitOrder cfg clk s gid pl pr sd ty qty prc = Some (s, Inl e)"
proof -
  have "pr \<notin> set (products cfg)
           \<or> qty < minOrderSize cfg \<or> qty > maxOrderSize cfg
           \<or> (ty = Limit \<and> (prc = None \<or> num prc \<le> 0))
           \<or> (sd = Buy \<and> cash pl < (if ty = Limit then qty * num prc else estimateMarketBuyCost s pr qty))
           \<or> (sd \<noteq> Buy \<and> lookup0 (inventory pl) pr < qty)"
    using assms by (cases sd; cases prc) (auto simp: valid_def not_le num_def)
  then show ?thesis
    by (auto simp: submitOrder_def)
qed

lemma submitOrder_Inr_valid:
  assumes "submitOrder cfg clk s gid pl pr sd ty qty prc = Some (s', Inr r)"
  shows "valid cfg s pl pr sd ty qty prc"
  using submitOrder_invalid [of cfg s pl pr sd ty qty prc clk gid] assms by auto



section \<open>Cancellation\<close>

text \<open>
  C9, as the code has it. \<^verbatim>\<open>cancelOrder\<close> checks in this order: an unknown identifier
  returns the not-found error; a requester who is not the owner gets the not-owner error,
  whatever the status of the order; the owner of a filled or cancelled order gets the
  already-terminal error; each of the three returns the state unchanged. Otherwise the
  order is marked cancelled in the store, no order with its identifier is left in the
  book of its product, its identifier is not in the owner's open-order set, and every
  participant's cash and inventory are as before.
\<close>

theorem cancelOrder_cases:
  "(getOrder s oid = None \<longrightarrow> cancelOrder clk s oid pid = (s, Inl OrderNotFound))
   \<and> (\<forall>ord. getOrder s oid = Some ord \<and> oplayerId ord \<noteq> pid \<longrightarrow>
          cancelOrder clk s oid pid = (s, Inl NotYourOrder))
   \<and> (\<forall>ord. getOrder s oid = Some ord \<and> oplayerId ord = pid
            \<and> (status ord = Filled \<or> status ord = Cancelled) \<longrightarrow>
          cancelOrder clk s oid pid = (s, Inl (OrderAlready (status ord))))
   \<and> (\<forall>ord. getOrder s oid = Some ord \<and> oplayerId ord = pid
            \<and> status ord \<noteq> Filled \<and> status ord \<noteq> Cancelled \<longrightarrow>
          (\<exists>s' ord'. cancelOrder clk s oid pid = (s', Inr ord')
             \<and> status ord' = Cancelled \<and> orderId ord' = orderId ord
             \<and> getOrder s' oid = Some ord'
             \<and> (\<forall>x \<in> set (bids (orderBooks s' (product ord))) \<union> set (asks (orderBooks s' (product ord))).
                   orderId x \<noteq> oid)
             \<and> (\<forall>p. getPlayer s' pid = Some p \<longrightarrow> oid \<notin> set (openOrderIds p))
             \<and> map (\<lambda>(k, p). (k, cash p, inventory p)) (players s')
                 = map (\<lambda>(k, p). (k, cash p, inventory p)) (players s)))"
proof (intro conjI allI impI)
  show "getOrder s oid = None \<Longrightarrow> cancelOrder clk s oid pid = (s, Inl OrderNotFound)"
    by (simp add: cancelOrder_def)
next
  fix ord assume "getOrder s oid = Some ord \<and> oplayerId ord \<noteq> pid"
  then show "cancelOrder clk s oid pid = (s, Inl NotYourOrder)"
    by (simp add: cancelOrder_def)
next
  fix ord assume "getOrder s oid = Some ord \<and> oplayerId ord = pid
            \<and> (status ord = Filled \<or> status ord = Cancelled)"
  then show "cancelOrder clk s oid pid = (s, Inl (OrderAlready (status ord)))"
    by (auto simp add: cancelOrder_def)
next
  fix ord assume a: "getOrder s oid = Some ord \<and> oplayerId ord = pid
            \<and> status ord \<noteq> Filled \<and> status ord \<noteq> Cancelled"
  define s2 where "s2 = (updBook (product ord) (\<lambda>ob. removeOrder ob oid) s)
      \<lparr>orders := (orders s)(oid \<mapsto> cancel clk (tick s) ord), tick := tick s + 1\<rparr>"
  define s' where "s' = saveOrder (updPlayer pid (\<lambda>p. player_removeOrder p oid) s2) (cancel clk (tick s) ord)"
  have res: "cancelOrder clk s oid pid = (s', Inr (cancel clk (tick s) ord))"
    using a by (simp add: cancelOrder_def Let_def s'_def s2_def)
  have pl2: "players s2 = players s" "orderBooks s2 = orderBooks (updBook (product ord) (\<lambda>ob. removeOrder ob oid) s)"
    by (simp_all add: s2_def)
  have gp2: "getPlayer s2 = getPlayer s"
    by (simp add: getPlayer_def fun_eq_iff pl2)
  have "map (\<lambda>(k, p). (k, cash p, inventory p)) (players s')
                 = map (\<lambda>(k, p). (k, cash p, inventory p)) (players s2)"
    unfolding s'_def saveOrder_fields
    by (rule updPlayer_projection) (simp add: player_removeOrder_def)
  moreover have "\<forall>x \<in> set (bids (orderBooks s' (product ord))) \<union> set (asks (orderBooks s' (product ord))).
                   orderId x \<noteq> oid"
    by (auto simp: s'_def pl2 removeOrder_def)
  moreover have "\<forall>p. getPlayer s' pid = Some p \<longrightarrow> oid \<notin> set (openOrderIds p)"
    by (auto simp: s'_def getPlayer_updPlayer player_removeOrder_def)
  moreover have "getOrder s' oid = Some (cancel clk (tick s) ord)"
    by (simp add: s'_def getOrder_def s2_def)
  ultimately show "\<exists>s' ord'. cancelOrder clk s oid pid = (s', Inr ord')
             \<and> status ord' = Cancelled \<and> orderId ord' = orderId ord
             \<and> getOrder s' oid = Some ord'
             \<and> (\<forall>x \<in> set (bids (orderBooks s' (product ord))) \<union> set (asks (orderBooks s' (product ord))).
                   orderId x \<noteq> oid)
             \<and> (\<forall>p. getPlayer s' pid = Some p \<longrightarrow> oid \<notin> set (openOrderIds p))
             \<and> map (\<lambda>(k, p). (k, cash p, inventory p)) (players s')
                 = map (\<lambda>(k, p). (k, cash p, inventory p)) (players s)"
    using res pl2 by (simp add: cancel_def)
qed

theorem cancelOrder_cases_witness:
  "cancelOrder wallClock filledState 10 1 = (filledState, Inl (OrderAlready Filled))
   \<and> status (projr (snd (cancelOrder wallClock restingState 10 1))) = Cancelled
   \<and> asks (orderBooks (fst (cancelOrder wallClock restingState 10 1)) ''bread'') = []
   \<and> map (\<lambda>(k, p). (k, cash p, openOrderIds p))
          (players (fst (cancelOrder wallClock restingState 10 1)))
       = [(1, 100, []), (2, 100, [])]"
  using cancelOrder_cases [of filledState 10 wallClock 1]
    cancelOrder_cases [of restingState 10 wallClock 1]
  by (simp add: cancelOrder_def getOrder_def filledState_def restingState_def limitOrder_def
      alice_def bob_def newPlayer_def newState_def Let_def cancel_def updBook_def
      removeOrder_def updPlayer_def getPlayer_def player_removeOrder_def saveOrder_def
      emptyBook_def)

text \<open>
  The claim as written fails where the requester is not the owner of a filled order: bob
  (player 2) cancels alice's filled order 10 and gets the not-owner error, not the
  already-terminal one.
\<close>

theorem cancelOrder_terminal_counterexample:
  "getOrder filledState 10
     = Some ((limitOrder 10 alice ''bread'' Sell 5 3 1000)\<lparr>remainingQuantity := 0, status := Filled\<rparr>)
   \<and> cancelOrder wallClock filledState 10 2 = (filledState, Inl NotYourOrder)
   \<and> snd (cancelOrder wallClock filledState 10 2) \<noteq> Inl (OrderAlready Filled)"
  by (simp add: cancelOrder_def getOrder_def filledState_def limitOrder_def alice_def
      newPlayer_def newState_def)

section \<open>Settlement\<close>





lemma getPlayer_settle:
  "getPlayer (settle b sl pr q v s) x = None \<longleftrightarrow> getPlayer s x = None"
  by (simp add: settle_def Let_def getPlayer_updPlayer)

lemma settle_fields [simp]:
  "orders (settle b sl pr q v s) = orders s"
  "trades (settle b sl pr q v s) = trades s"
  "orderBooks (settle b sl pr q v s) = orderBooks s"
  "nextId (settle b sl pr q v s) = nextId s"
  "tick (settle b sl pr q v s) = tick s"
  by (simp_all add: settle_def Let_def)






lemma history_fields [simp]:
  "orders (history b sl bo so tid s) = orders s"
  "trades (history b sl bo so tid s) = trades s"
  "orderBooks (history b sl bo so tid s) = orderBooks s"
  "nextId (history b sl bo so tid s) = nextId s"
  "tick (history b sl bo so tid s) = tick s"
  by (simp_all add: history_def Let_def)


lemma fill_fields [simp]:
  "orderId (fill clk t ord tid q p) = orderId ord"
  "ogameId (fill clk t ord tid q p) = ogameId ord"
  "oplayerId (fill clk t ord tid q p) = oplayerId ord"
  "product (fill clk t ord tid q p) = product ord"
  "side (fill clk t ord tid q p) = side ord"
  "orderType (fill clk t ord tid q p) = orderType ord"
  "quantity (fill clk t ord tid q p) = quantity ord"
  "price (fill clk t ord tid q p) = price ord"
  "createdAt (fill clk t ord tid q p) = createdAt ord"
  "remainingQuantity (fill clk t ord tid q p) = remainingQuantity ord - q"
  "status (fill clk t ord tid q p) = (if remainingQuantity ord - q \<le> 0 then Filled else Partial)"
  by (simp_all add: fill_def)

lemma executeTrade_None:
  "executeTrade clk s inc rst = (s', inc', None) \<Longrightarrow> s' = s \<and> inc' = inc"
  by (auto simp: executeTrade_def Let_def split: option.splits if_splits)

lemma executeTrade_Some:
  assumes "executeTrade clk s inc rst = (s', inc', Some t)"
  defines "bo \<equiv> (if side inc = Buy then inc else rst)"
    and "so \<equiv> (if side inc = Buy then rst else inc)"
    and "q \<equiv> min (remainingQuantity inc) (remainingQuantity rst)"
  shows "(\<exists>b sl. getPlayer s (oplayerId bo) = Some b \<and> getPlayer s (oplayerId so) = Some sl
           \<and> q * num (price rst) \<le> cash b \<and> q \<le> lookup0 (inventory sl) (product inc))
    \<and> t = \<lparr>tradeId = nextId s, tgameId = ogameId inc,
              buyOrderId = orderId bo, sellOrderId = orderId so,
              buyerId = oplayerId bo, sellerId = oplayerId so,
              tproduct = product inc, tquantity = q, tprice = price rst,
              tvalue = q * num (price rst), executedAt = clk (tick s)\<rparr>
    \<and> inc' = fill clk (tick s + (if side inc = Buy then 1 else 3)) inc (nextId s) q (price rst)
    \<and> s' = (updBook (product inc)
              (\<lambda>ob. mutated ob
                 (fill clk (tick s + (if side inc = Buy then 3 else 1)) rst (nextId s) q (price rst)))
              (saveOrder (saveOrder (saveTrade
                (history (oplayerId bo) (oplayerId so)
                  (fill clk (tick s + 1) bo (nextId s) q (price rst))
                  (fill clk (tick s + 3) so (nextId s) q (price rst)) (nextId s)
                  (settle (oplayerId bo) (oplayerId so) (product inc) q (q * num (price rst)) s)) t)
                (fill clk (tick s + 1) bo (nextId s) q (price rst)))
                (fill clk (tick s + 3) so (nextId s) q (price rst))))
            \<lparr>nextId := nextId s + 1, tick := tick s + 5\<rparr>"
proof (cases "side inc = Buy")
  case True
  then have [simp]: "bo = inc" "so = rst" by (simp_all add: bo_def so_def)
  show ?thesis
    using assms(1) True unfolding q_def
    by (auto simp add: executeTrade_def Let_def not_less split: option.splits if_splits)
next
  case False
  then have [simp]: "bo = rst" "so = inc" by (simp_all add: bo_def so_def)
  show ?thesis
    using assms(1) False unfolding q_def
    by (auto simp add: executeTrade_def Let_def not_less split: option.splits if_splits)
qed






lemma executeTrade_players:
  assumes "executeTrade clk s inc rst = (s', inc', Some t)"
  shows "players s' = players (history (buyerId t) (sellerId t)
            (fill clk (tick s + 1) (if side inc = Buy then inc else rst) (nextId s) (tquantity t) (tprice t))
            (fill clk (tick s + 3) (if side inc = Buy then rst else inc) (nextId s) (tquantity t) (tprice t))
            (nextId s)
            (settle (buyerId t) (sellerId t) (tproduct t) (tquantity t) (tvalue t) s))"
  using executeTrade_Some [OF assms] by simp



section \<open>The matching loop\<close>

lemma stops_or_continues: "stops s inc \<or> (\<exists>opp. continues s inc opp)"
  by (cases "bestOpposing s inc") (auto simp: stops_def continues_def)

lemma matchOrder_loop_stops:
  "stops s inc \<Longrightarrow> matchOrder_loop clk s inc ts = Some (s, inc, ts)"
  by (subst matchOrder_loop.simps)
     (auto simp: stops_def bestOpposing_def matchable_def split: option.splits)

lemma matchOrder_loop_continues:
  assumes "continues s inc opp" "executeTrade clk s inc opp = (s1, inc1, t)"
  shows "matchOrder_loop clk s inc ts
           = matchOrder_loop clk (afterTrade inc s1) inc1 (case t of None \<Rightarrow> ts | Some t' \<Rightarrow> ts @ [t'])"
  using assms
  by (subst matchOrder_loop.simps)
     (auto simp: continues_def bestOpposing_def matchable_def afterTrade_def split: option.splits)

lemma matchOrder_loop_induct [consumes 1, case_names stop step]:
  assumes run: "matchOrder_loop clk s inc ts = Some r"
    and stop: "\<And>s inc ts. stops s inc \<Longrightarrow> P s inc ts (s, inc, ts)"
    and step: "\<And>s inc ts opp s1 inc1 t r.
        continues s inc opp \<Longrightarrow> executeTrade clk s inc opp = (s1, inc1, t) \<Longrightarrow>
        matchOrder_loop clk (afterTrade inc s1) inc1 (case t of None \<Rightarrow> ts | Some t' \<Rightarrow> ts @ [t']) = Some r \<Longrightarrow>
        P (afterTrade inc s1) inc1 (case t of None \<Rightarrow> ts | Some t' \<Rightarrow> ts @ [t']) r \<Longrightarrow>
        P s inc ts r"
  shows "P s inc ts r"
proof -
  let ?Q = "\<lambda>c s inc ts r. c = clk \<longrightarrow> P s inc ts r \<and> matchOrder_loop clk s inc ts = Some r"
  have "?Q clk s inc ts r"
  proof (rule matchOrder_loop.raw_induct [where P = ?Q, OF _ run])
    fix f c s inc ts r
    assume IH: "\<And>c s inc ts r. f c s inc ts = Some r \<Longrightarrow> ?Q c s inc ts r"
      and H: "(if 0 < remainingQuantity inc
      then case if side inc = Buy
                then getBestAsk (orderBooks s (product inc))
                else getBestBid (orderBooks s (product inc)) of
           None \<Rightarrow> Some (s, inc, ts)
           | Some opposingOrder \<Rightarrow>
               if oplayerId opposingOrder = oplayerId inc
               then Some (s, inc, ts)
               else if orderType inc = Limit \<and>
                       side inc = Buy \<and>
                       num (price inc) < num (price opposingOrder)
                    then Some (s, inc, ts)
                    else if orderType inc = Limit \<and>
                            side inc = Sell \<and>
                            num (price opposingOrder)
                            < num (price inc)
                         then Some (s, inc, ts)
                         else case executeTrade c s inc
                                    opposingOrder of
                              (s', incomingOrder', t) \<Rightarrow>
                                f c
                                 (updBook (product inc) cleanup
                                   s')
                                 incomingOrder'
                                 (case t of None \<Rightarrow> ts | Some t' \<Rightarrow> ts @ [t'])
      else Some (s, inc, ts)) =
     Some r"
    show "?Q c s inc ts r"
    proof (intro impI)
      assume c: "c = clk"
      consider "stops s inc" | opp where "continues s inc opp"
        using stops_or_continues by blast
      then show "P s inc ts r \<and> matchOrder_loop clk s inc ts = Some r"
      proof cases
        case 1
        then have "r = (s, inc, ts)"
          using H by (auto simp: stops_def bestOpposing_def matchable_def split: option.splits if_splits)
        then show ?thesis using 1 stop matchOrder_loop_stops by simp
      next
        case 2
        obtain s1 inc1 t where e: "executeTrade clk s inc opp = (s1, inc1, t)"
          by (metis prod_cases3)
        let ?ts = "case t of None \<Rightarrow> ts | Some t' \<Rightarrow> ts @ [t']"
        have "f clk (afterTrade inc s1) inc1 ?ts = Some r"
          using H 2 e c
          by (auto simp: continues_def bestOpposing_def matchable_def afterTrade_def split: option.splits if_splits)
        from IH [OF this]
        have ih: "P (afterTrade inc s1) inc1 ?ts r"
          "matchOrder_loop clk (afterTrade inc s1) inc1 ?ts = Some r"
          by simp_all
        then show ?thesis
          using step [OF 2 e ih(2) ih(1)] matchOrder_loop_continues [OF 2 e, of ts] by simp
      qed
    qed
  qed
  then show ?thesis by simp
qed

lemma executeTrade_trade:
  assumes "executeTrade clk s inc rst = (s', inc', Some t)"
  shows "buyerId t = oplayerId (if side inc = Buy then inc else rst)"
    and "sellerId t = oplayerId (if side inc = Buy then rst else inc)"
    and "tradeId t = nextId s"
    and "executedAt t = clk (tick s)"
    and "buyOrderId t = orderId (if side inc = Buy then inc else rst)"
    and "sellOrderId t = orderId (if side inc = Buy then rst else inc)"
  using executeTrade_Some [OF assms] by simp_all

lemma executeTrade_state:
  assumes "executeTrade clk s inc rst = (s', inc', Some t)"
  shows "trades s' = trades s @ [t]"
    and "nextId s' = nextId s + 1"
    and "tick s' = tick s + 5"
    and "orderBooks s' = (orderBooks s)(product inc :=
            mutated (orderBooks s (product inc))
              (fill clk (tick s + (if side inc = Buy then 3 else 1)) rst (nextId s)
                 (min (remainingQuantity inc) (remainingQuantity rst)) (price rst)))"
    and "inc' = fill clk (tick s + (if side inc = Buy then 1 else 3)) inc (nextId s)
                 (min (remainingQuantity inc) (remainingQuantity rst)) (price rst)"
  using executeTrade_Some [OF assms] by (simp_all add: fun_eq_iff)

lemma afterTrade_fields [simp]:
  "players (afterTrade inc s) = players s"
  "orders (afterTrade inc s) = orders s"
  "trades (afterTrade inc s) = trades s"
  "nextId (afterTrade inc s) = nextId s"
  "tick (afterTrade inc s) = tick s"
  "getPlayer (afterTrade inc s) = getPlayer s"
  by (simp_all add: afterTrade_def)

lemma noSelfTrade_append:
  "noSelfTrade (xs @ [t]) \<longleftrightarrow> noSelfTrade xs \<and> buyerId t \<noteq> sellerId t"
  by (auto simp: noSelfTrade_def)

lemma noSelfTrade_loop:
  assumes "matchOrder_loop clk s inc ts = Some r"
  shows "noSelfTrade ts \<and> noSelfTrade (trades s) \<longrightarrow>
         noSelfTrade (snd (snd r)) \<and> noSelfTrade (trades (fst r))"
  using assms
proof (induction rule: matchOrder_loop_induct)
  case (stop s inc ts)
  then show ?case by simp
next
  case (step s inc ts opp s1 inc1 t r)
  show ?case
  proof (cases t)
    case None
    have "s1 = s" using executeTrade_None [OF step.hyps(2) [unfolded None]] by simp
    then show ?thesis using step.IH None by simp
  next
    case (Some t')
    note e = step.hyps(2) [unfolded Some]
    have "oplayerId opp \<noteq> oplayerId inc"
      using step.hyps(1) by (simp add: continues_def matchable_def)
    then have ne: "buyerId t' \<noteq> sellerId t'"
      using executeTrade_trade(1,2) [OF e] by (cases "side inc = Buy") auto
    have tr: "trades (afterTrade inc s1) = trades s @ [t']"
      using executeTrade_state(1) [OF e] by simp
    have ih: "noSelfTrade (ts @ [t']) \<and> noSelfTrade (trades s @ [t']) \<longrightarrow>
         noSelfTrade (snd (snd r)) \<and> noSelfTrade (trades (fst r))"
      using step.IH unfolding Some tr by simp
    show ?thesis
    proof
      assume "noSelfTrade ts \<and> noSelfTrade (trades s)"
      then have "noSelfTrade (ts @ [t']) \<and> noSelfTrade (trades s @ [t'])"
        using ne by (simp add: noSelfTrade_append)
      with ih show "noSelfTrade (snd (snd r)) \<and> noSelfTrade (trades (fst r))"
        by blast
    qed
  qed
qed

lemma getPlayer_updPlayer_None:
  "getPlayer (updPlayer pid f s) x = None \<longleftrightarrow> getPlayer s x = None"
  by (auto simp: getPlayer_updPlayer)

lemma getPlayer_history_None:
  "getPlayer (history b sl bo so tid s) x = None \<longleftrightarrow> getPlayer s x = None"
  by (simp add: history_def Let_def getPlayer_updPlayer_None)

lemma getPlayer_executeTrade_None:
  assumes "executeTrade clk s inc rst = (s', inc', t)"
  shows "getPlayer s' x = None \<longleftrightarrow> getPlayer s x = None"
proof (cases t)
  case None
  then show ?thesis using executeTrade_None assms by blast
next
  case (Some t')
  have "getPlayer s' x = getPlayer (history (buyerId t') (sellerId t')
            (fill clk (tick s + 1) (if side inc = Buy then inc else rst) (nextId s) (tquantity t') (tprice t'))
            (fill clk (tick s + 3) (if side inc = Buy then rst else inc) (nextId s) (tquantity t') (tprice t'))
            (nextId s)
            (settle (buyerId t') (sellerId t') (tproduct t') (tquantity t') (tvalue t') s)) x"
    using executeTrade_players [OF assms [unfolded Some]] by (simp add: getPlayer_def)
  then show ?thesis
    by (simp add: getPlayer_history_None getPlayer_settle)
qed

lemma loop_players:
  assumes "matchOrder_loop clk s inc ts = Some r"
  shows "getPlayer (fst r) x = None \<longleftrightarrow> getPlayer s x = None"
  using assms
proof (induction rule: matchOrder_loop_induct)
  case (stop s inc ts)
  show ?case by simp
next
  case (step s inc ts opp s1 inc1 t r)
  show ?case
    using step.IH getPlayer_executeTrade_None [OF step.hyps(2)] by simp
qed

lemma executeTrade_incoming:
  assumes "executeTrade clk s inc rst = (s', inc', t)"
  shows "orderId inc' = orderId inc \<and> oplayerId inc' = oplayerId inc \<and> product inc' = product inc
       \<and> side inc' = side inc \<and> orderType inc' = orderType inc \<and> price inc' = price inc
       \<and> createdAt inc' = createdAt inc"
proof (cases t)
  case None
  then show ?thesis using executeTrade_None assms by blast
next
  case (Some t')
  show ?thesis
    using executeTrade_state(5) [OF assms [unfolded Some]] by simp
qed

lemma loop_incoming:
  assumes "matchOrder_loop clk s inc ts = Some r"
  shows "orderId (fst (snd r)) = orderId inc \<and> oplayerId (fst (snd r)) = oplayerId inc
       \<and> product (fst (snd r)) = product inc
       \<and> side (fst (snd r)) = side inc \<and> orderType (fst (snd r)) = orderType inc
       \<and> price (fst (snd r)) = price inc \<and> createdAt (fst (snd r)) = createdAt inc"
  using assms
proof (induction rule: matchOrder_loop_induct)
  case (stop s inc ts)
  show ?case by simp
next
  case (step s inc ts opp s1 inc1 t r)
  show ?case
    using step.IH executeTrade_incoming [OF step.hyps(2)] by simp
qed

lemma filter_Cons_in:
  assumes "filter P xs = x # ys"
  shows "x \<in> set xs \<and> P x"
proof -
  have "x \<in> set (filter P xs)" by (simp add: assms)
  then show ?thesis by simp
qed

lemma getBest_in_book:
  "getBestAsk ob = Some x \<Longrightarrow> x \<in> set (asks ob) \<and> isActive x"
  "getBestBid ob = Some x \<Longrightarrow> x \<in> set (bids ob) \<and> isActive x"
  by (auto simp: getBestAsk_def getBestBid_def split: list.splits dest: filter_Cons_in)

lemma bestOpposing_in_book:
  assumes "bestOpposing s inc = Some opp"
  shows "opp \<in> set (bids (orderBooks s (product inc))) \<union> set (asks (orderBooks s (product inc)))"
    and "isActive opp"
  using assms getBest_in_book by (auto simp: bestOpposing_def split: if_splits)


lemma bookOrders_afterTrade: "bookOrders (afterTrade inc s) pr \<subseteq> bookOrders s pr"
  by (auto simp: bookOrders_def afterTrade_def cleanup_def)

lemma bookOrders_executeTrade:
  assumes "executeTrade clk s inc rst = (s', inc', t)" "x \<in> bookOrders s' pr"
  shows "x \<in> bookOrders s pr \<or> (\<exists>k q. x = fill clk k rst (nextId s) q (price rst))"
proof (cases t)
  case None
  then show ?thesis using executeTrade_None assms by blast
next
  case (Some t')
  show ?thesis
    using assms(2) unfolding bookOrders_def executeTrade_state(4) [OF assms(1) [unfolded Some]]
    by (auto simp: mutated_def split: if_splits)
qed

lemma allLimit_alt: "allLimit s \<longleftrightarrow> (\<forall>pr. \<forall>x \<in> bookOrders s pr. orderType x = Limit)"
  by (simp add: allLimit_def bookOrders_def)

lemma loop_allLimit:
  assumes "matchOrder_loop clk s inc ts = Some r"
  shows "allLimit s \<longrightarrow> allLimit (fst r)"
  using assms
proof (induction rule: matchOrder_loop_induct)
  case (stop s inc ts)
  show ?case by simp
next
  case (step s inc ts opp s1 inc1 t r)
  have "allLimit (afterTrade inc s1)" if a: "allLimit s"
    unfolding allLimit_alt
  proof (intro allI ballI)
    fix pr x assume "x \<in> bookOrders (afterTrade inc s1) pr"
    then have "x \<in> bookOrders s1 pr" using bookOrders_afterTrade by blast
    then consider "x \<in> bookOrders s pr" | k q where "x = fill clk k opp (nextId s) q (price opp)"
      using bookOrders_executeTrade [OF step.hyps(2)] by blast
    then show "orderType x = Limit"
    proof cases
      case 1
      then show ?thesis using a by (simp add: allLimit_alt)
    next
      case 2
      have "opp \<in> bookOrders s (product inc)"
        using bestOpposing_in_book(1) step.hyps(1) by (simp add: continues_def bookOrders_def)
      then show ?thesis using a 2 by (simp add: allLimit_alt)
    qed
  qed
  then show ?case using step.IH by blast
qed


lemma set_insort_cmp [simp]: "set (insort_cmp cmp x ys) = insert x (set ys)"
  by (induction ys) auto

lemma set_sort_cmp [simp]: "set (sort_cmp cmp xs) = set xs"
  by (induction xs) (auto simp: sort_cmp_def)


lemma sort_cmp_Nil [simp]: "sort_cmp cmp [] = []"
  by (simp add: sort_cmp_def)

lemma sort_cmp_Cons [simp]: "sort_cmp cmp (x # xs) = insort_cmp cmp x (sort_cmp cmp xs)"
  by (simp add: sort_cmp_def)




lemma distinct_insort_cmp:
  "distinct (map f (insort_cmp cmp x ys)) \<longleftrightarrow> distinct (map f (x # ys))"
  by (induction ys) auto

lemma distinct_sort_cmp: "distinct (map f (sort_cmp cmp xs)) \<longleftrightarrow> distinct (map f xs)"
  by (induction xs) (auto simp: distinct_insort_cmp)

lemma length_sort_cmp [simp]: "length (sort_cmp cmp xs) = length xs"
proof -
  have "length (insort_cmp cmp x ys) = Suc (length ys)" for x ys
    by (induction ys) auto
  then show ?thesis by (induction xs) auto
qed

lemma bookOrders_restOrder:
  "bookOrders (restOrder s ord) pr
     = (if pr = product ord then insert ord (bookOrders s pr) else bookOrders s pr)"
  by (auto simp: bookOrders_def restOrder_def addOrder_def)

lemma restOrder_in_book:
  "ord \<in> set (if side ord = Buy then bids (orderBooks (restOrder s ord) (product ord))
               else asks (orderBooks (restOrder s ord) (product ord)))"
  by (simp add: restOrder_def addOrder_def)

lemma restOrder_open:
  assumes "getPlayer s (oplayerId ord) = Some p"
  shows "\<exists>p'. getPlayer (restOrder s ord) (oplayerId ord) = Some p'
            \<and> orderId ord \<in> set (openOrderIds p')"
  using assms by (simp add: restOrder_def getPlayer_updPlayer player_addOrder_def)

lemma bookOrders_saveOrder [simp]: "bookOrders (saveOrder s ord) pr = bookOrders s pr"
  by (simp add: bookOrders_def)

lemma allLimit_rest:
  "allLimit s \<Longrightarrow> orderType ord = Limit \<Longrightarrow> allLimit (saveOrder (restOrder s ord) ord)"
  by (simp add: allLimit_alt bookOrders_restOrder)

lemma allLimit_save: "allLimit s \<Longrightarrow> allLimit (saveOrder s ord)"
  by (simp add: allLimit_alt)

lemma submitOrder_matchOrder:
  assumes "submitOrder cfg clk s gid pl pr sd ty qty prc = Some (s', Inr (ord, ts))"
  obtains s1 ord1 where
    "matchOrder_loop clk (s\<lparr>nextId := nextId s + 1, tick := tick s + 2\<rparr>)
       (newOrder clk s gid (playerId pl) (name pl) pr sd ty qty prc) [] = Some (s1, ord1, ts)"
    "remainingQuantity ord1 > 0 \<and> ty = Limit \<Longrightarrow> s' = saveOrder (restOrder s1 ord1) ord1 \<and> ord = ord1"
    "remainingQuantity ord1 > 0 \<and> ty = Market \<Longrightarrow>
       ord = ord1\<lparr>price := Some (if sd = Buy then 999999 else 1), orderType := Limit\<rparr>
       \<and> s' = saveOrder (restOrder s1 ord) ord"
    "\<not> remainingQuantity ord1 > 0 \<Longrightarrow> s' = saveOrder s1 ord1 \<and> ord = ord1"
proof -
  have v: "valid cfg s pl pr sd ty qty prc"
    using submitOrder_Inr_valid [OF assms] .
  let ?m = "matchOrder clk (s\<lparr>nextId := nextId s + 1, tick := tick s + 2\<rparr>)
       (newOrder clk s gid (playerId pl) (name pl) pr sd ty qty prc)"
  have e: "(case ?m of
             None \<Rightarrow> None
           | Some (s1, ord1, ts) \<Rightarrow>
               if remainingQuantity ord1 > 0 \<and> ty = Limit
               then Some (saveOrder (restOrder s1 ord1) ord1, Inr (ord1, ts))
               else if remainingQuantity ord1 > 0 \<and> ty = Market
               then Some (saveOrder (restOrder s1
                            (ord1\<lparr>price := Some (if sd = Buy then 999999 else 1), orderType := Limit\<rparr>))
                            (ord1\<lparr>price := Some (if sd = Buy then 999999 else 1), orderType := Limit\<rparr>),
                          Inr (ord1\<lparr>price := Some (if sd = Buy then 999999 else 1), orderType := Limit\<rparr>, ts))
               else Some (saveOrder s1 ord1, Inr (ord1, ts)))
           = Some (s', (Inr (ord, ts) :: error + order \<times> trade list))"
    using assms by (simp only: submitOrder_valid [OF v])
  then obtain s1 ord1 ts1 where m: "?m = Some (s1, ord1, ts1)"
    by (cases ?m) auto
  have ts: "ts1 = ts"
    using e unfolding m by (simp split: if_splits)
  have a: "remainingQuantity ord1 > 0 \<and> ty = Limit \<Longrightarrow> s' = saveOrder (restOrder s1 ord1) ord1 \<and> ord = ord1"
    using e unfolding m by auto
  have b: "remainingQuantity ord1 > 0 \<and> ty = Market \<Longrightarrow>
       ord = ord1\<lparr>price := Some (if sd = Buy then 999999 else 1), orderType := Limit\<rparr>
       \<and> s' = saveOrder (restOrder s1 ord) ord"
    using e unfolding m by auto
  have c: "\<not> remainingQuantity ord1 > 0 \<Longrightarrow> s' = saveOrder s1 ord1 \<and> ord = ord1"
    using e unfolding m by auto
  show thesis
    using that [OF _ a b c] m ts by (simp add: matchOrder_def)
qed

lemma newOrder_fields [simp]:
  "orderId (newOrder clk s gid pid pname pr sd ty qty prc) = nextId s"
  "oplayerId (newOrder clk s gid pid pname pr sd ty qty prc) = pid"
  "product (newOrder clk s gid pid pname pr sd ty qty prc) = pr"
  "side (newOrder clk s gid pid pname pr sd ty qty prc) = sd"
  "orderType (newOrder clk s gid pid pname pr sd ty qty prc) = ty"
  "price (newOrder clk s gid pid pname pr sd ty qty prc) = prc"
  "remainingQuantity (newOrder clk s gid pid pname pr sd ty qty prc) = qty"
  "createdAt (newOrder clk s gid pid pname pr sd ty qty prc) = clk (tick s)"
  "status (newOrder clk s gid pid pname pr sd ty qty prc) = Open"
  by (simp_all add: newOrder_def)

lemmas example_defs = exampleConfig_def restingState_def filledState_def newState_def
  alice_def bob_def newPlayer_def limitOrder_def wallClock_def newOrder_def emptyBook_def

lemmas engine_defs = submitOrder_def matchOrder_def getBestAsk_def getBestBid_def isActive_def
  num_def lookup0_def restOrder_def updPlayer_def updBook_def getPlayer_def addOrder_def
  sort_cmp_def player_addOrder_def saveOrder_def estimateMarketBuyCost_def Let_def

section \<open>The remainder of an order\<close>

text \<open>
  C6. When \<^verbatim>\<open>submitOrder\<close> returns an order with remaining quantity above 0, the order is
  a limit order: a limit order at its own price, a market order converted to a limit order at
  price 999999 (buy) or 1 (sell). It is on its side of the book of its product, it is
  stored, and its identifier is in the open-order set of the submitter (the player object
  stored under the submitter's identifier). If every order on a book was a limit order
  before the submission, the same holds after it.
\<close>

theorem remainder_rests:
  assumes "submitOrder cfg clk s gid pl pr sd ty qty prc = Some (s', Inr (ord, ts))"
  shows "(remainingQuantity ord > 0 \<longrightarrow>
            orderType ord = Limit
          \<and> price ord = (if ty = Market then Some (if sd = Buy then 999999 else 1) else prc)
          \<and> ord \<in> set (if sd = Buy then bids (orderBooks s' pr) else asks (orderBooks s' pr))
          \<and> (\<forall>p. getPlayer s (playerId pl) = Some p \<longrightarrow>
                (\<exists>p'. getPlayer s' (playerId pl) = Some p' \<and> orderId ord \<in> set (openOrderIds p')))
          \<and> getOrder s' (orderId ord) = Some ord)
       \<and> (allLimit s \<longrightarrow> allLimit s')"
proof -
  let ?s0 = "s\<lparr>nextId := nextId s + 1, tick := tick s + 2\<rparr>"
  let ?o0 = "newOrder clk s gid (playerId pl) (name pl) pr sd ty qty prc"
  from submitOrder_matchOrder [OF assms] obtain s1 ord1 where
    m: "matchOrder_loop clk ?s0 ?o0 [] = Some (s1, ord1, ts)"
    and a: "remainingQuantity ord1 > 0 \<and> ty = Limit \<Longrightarrow> s' = saveOrder (restOrder s1 ord1) ord1 \<and> ord = ord1"
    and b: "remainingQuantity ord1 > 0 \<and> ty = Market \<Longrightarrow>
       ord = ord1\<lparr>price := Some (if sd = Buy then 999999 else 1), orderType := Limit\<rparr>
       \<and> s' = saveOrder (restOrder s1 ord) ord"
    and c: "\<not> remainingQuantity ord1 > 0 \<Longrightarrow> s' = saveOrder s1 ord1 \<and> ord = ord1"
    by blast
  have f: "orderId ord1 = nextId s" "oplayerId ord1 = playerId pl" "product ord1 = pr"
    "side ord1 = sd" "orderType ord1 = ty" "price ord1 = prc"
    using loop_incoming [OF m] by simp_all
  have pk: "getPlayer s1 x = None \<longleftrightarrow> getPlayer s x = None" for x
    using loop_players [OF m, of x] by (simp add: getPlayer_def)
  have "allLimit ?s0 = allLimit s" by (simp add: allLimit_def)
  then have al: "allLimit s \<longrightarrow> allLimit s1"
    using loop_allLimit [OF m] by simp
  show ?thesis
  proof (cases "remainingQuantity ord1 > 0")
    case False
    then have "s' = saveOrder s1 ord1" "ord = ord1" using c by simp_all
    then show ?thesis using False al allLimit_save by simp
  next
    case True
    define o2 where "o2 = (if ty = Limit then ord1
        else ord1\<lparr>price := Some (if sd = Buy then 999999 else 1), orderType := Limit\<rparr>)"
    have o: "ord = o2" and s': "s' = saveOrder (restOrder s1 o2) o2"
      using a b True by (cases ty; simp add: o2_def)+
    have f2: "orderId o2 = nextId s" "oplayerId o2 = playerId pl" "product o2 = pr"
      "side o2 = sd" "orderType o2 = Limit"
      "price o2 = (if ty = Market then Some (if sd = Buy then 999999 else 1) else prc)"
      using f by (cases ty; simp add: o2_def)+
    have 1: "o2 \<in> set (if sd = Buy then bids (orderBooks s' pr) else asks (orderBooks s' pr))"
    proof -
      have "o2 \<in> set (if side o2 = Buy then bids (orderBooks (restOrder s1 o2) (product o2))
               else asks (orderBooks (restOrder s1 o2) (product o2)))"
        by (rule restOrder_in_book)
      then show ?thesis unfolding f2 s' by (simp split: if_splits)
    qed
    have 2: "\<exists>p'. getPlayer s' (playerId pl) = Some p' \<and> orderId o2 \<in> set (openOrderIds p')"
      if gp: "getPlayer s (playerId pl) = Some p" for p
    proof -
      obtain p1 where "getPlayer s1 (oplayerId o2) = Some p1"
        using pk [of "playerId pl"] gp f2 by (cases "getPlayer s1 (playerId pl)") auto
      from restOrder_open [OF this]
      show "\<exists>p'. getPlayer s' (playerId pl) = Some p' \<and> orderId o2 \<in> set (openOrderIds p')"
        by (simp add: s' f2)
    qed
    have 3: "getOrder s' (orderId o2) = Some o2"
      by (simp add: s' getOrder_def)
    have 4: "allLimit s \<longrightarrow> allLimit s'"
      using al allLimit_rest [of s1 o2] f2 by (simp add: s')
    show ?thesis
      using 1 2 3 4 f2 True by (simp add: o)
  qed
qed

theorem remainder_rests_witness:
  "map_option
     (\<lambda>(s', r). (r, bids (orderBooks s' ''bread''), map (\<lambda>(k, p). openOrderIds p) (players s')))
     (submitOrder exampleConfig wallClock restingState 0 (alice\<lparr>openOrderIds := [10]\<rparr>)
        ''bread'' Buy Market 5 None)
     = Some (Inr (limitOrder 11 alice ''bread'' Buy 5 999999 1002, []),
             [limitOrder 11 alice ''bread'' Buy 5 999999 1002], [[10, 11], []])"
proof -
  let ?r = "submitOrder exampleConfig wallClock restingState 0 (alice\<lparr>openOrderIds := [10]\<rparr>)
        ''bread'' Buy Market 5 None"
  have e: "map_option
     (\<lambda>(s', r). (r, bids (orderBooks s' ''bread''), map (\<lambda>(k, p). openOrderIds p) (players s'))) ?r
     = Some (Inr (limitOrder 11 alice ''bread'' Buy 5 999999 1002, []),
             [limitOrder 11 alice ''bread'' Buy 5 999999 1002], [[10, 11], []])"
    by (simp add: example_defs engine_defs matchOrder_loop.simps)
  then obtain s' where s': "?r = Some (s', Inr (limitOrder 11 alice ''bread'' Buy 5 999999 1002, []))"
    by (cases ?r) auto
  have "0 < remainingQuantity (limitOrder 11 alice ''bread'' Buy 5 999999 1002)"
    by (simp add: limitOrder_def)
  with remainder_rests [OF s']
  have "limitOrder 11 alice ''bread'' Buy 5 999999 1002 \<in> set (bids (orderBooks s' ''bread''))"
    by simp
  with e show ?thesis by simp
qed

section \<open>Self-trade prevention\<close>

text \<open>
  C4. When the best opposing order belongs to the submitter, the matching loop leaves at
  once: it returns the state, the order and the trades it was entered with, so it executes
  no trade and looks at no other order of the book. A submission that meets the
  submitter's own order first therefore returns with no trade, the whole quantity
  remaining, and the stored trades and all balances unchanged. No trade the loop
  or a submission produces, and no stored trade, has the same participant as buyer and as
  seller, if none had before.
\<close>

theorem self_trade_prevention:
  "(remainingQuantity inc > 0 \<and> bestOpposing s inc = Some opp \<and> oplayerId opp = oplayerId inc \<longrightarrow>
      matchOrder_loop clk s inc ts = Some (s, inc, ts))
   \<and> (valid cfg s pl pr sd ty qty prc
      \<and> bestOpposing s (newOrder clk s gid (playerId pl) (name pl) pr sd ty qty prc) = Some opp
      \<and> oplayerId opp = playerId pl \<longrightarrow>
      (\<exists>s2 ord. submitOrder cfg clk s gid pl pr sd ty qty prc = Some (s2, Inr (ord, []))
         \<and> remainingQuantity ord = qty \<and> trades s2 = trades s
         \<and> totalCash s2 = totalCash s \<and> (\<forall>p. totalInventory s2 p = totalInventory s p)))
   \<and> (matchOrder_loop clk s inc ts = Some (s', inc', ts') \<and> noSelfTrade ts \<and> noSelfTrade (trades s) \<longrightarrow>
      noSelfTrade ts' \<and> noSelfTrade (trades s'))
   \<and> (submitOrder cfg clk s gid pl pr sd ty qty prc = Some (s3, Inr (ord3, ts3)) \<and> noSelfTrade (trades s) \<longrightarrow>
      noSelfTrade ts3 \<and> noSelfTrade (trades s3))"
proof (intro conjI; rule impI)
  assume "remainingQuantity inc > 0 \<and> bestOpposing s inc = Some opp \<and> oplayerId opp = oplayerId inc"
  then have "stops s inc" by (auto simp: stops_def matchable_def)
  then show "matchOrder_loop clk s inc ts = Some (s, inc, ts)"
    by (rule matchOrder_loop_stops)
next
  assume h: "matchOrder_loop clk s inc ts = Some (s', inc', ts') \<and> noSelfTrade ts \<and> noSelfTrade (trades s)"
  then show "noSelfTrade ts' \<and> noSelfTrade (trades s')"
    using noSelfTrade_loop [of clk s inc ts "(s', inc', ts')"] by simp
next
  assume h: "submitOrder cfg clk s gid pl pr sd ty qty prc = Some (s3, Inr (ord3, ts3)) \<and> noSelfTrade (trades s)"
  let ?s0 = "s\<lparr>nextId := nextId s + 1, tick := tick s + 2\<rparr>"
  let ?o0 = "newOrder clk s gid (playerId pl) (name pl) pr sd ty qty prc"
  from h submitOrder_matchOrder [of cfg clk s gid pl pr sd ty qty prc s3 ord3 ts3] obtain s1 ord1 where
    m: "matchOrder_loop clk ?s0 ?o0 [] = Some (s1, ord1, ts3)"
    and a: "remainingQuantity ord1 > 0 \<and> ty = Limit \<Longrightarrow> s3 = saveOrder (restOrder s1 ord1) ord1 \<and> ord3 = ord1"
    and b: "remainingQuantity ord1 > 0 \<and> ty = Market \<Longrightarrow>
       ord3 = ord1\<lparr>price := Some (if sd = Buy then 999999 else 1), orderType := Limit\<rparr>
       \<and> s3 = saveOrder (restOrder s1 ord3) ord3"
    and c: "\<not> remainingQuantity ord1 > 0 \<Longrightarrow> s3 = saveOrder s1 ord1 \<and> ord3 = ord1"
    by blast
  have t: "trades s3 = trades s1"
  proof (cases "remainingQuantity ord1 > 0")
    case False
    from c [OF this] show ?thesis by simp
  next
    case True
    show ?thesis
    proof (cases ty)
      case Limit
      with True a have "s3 = saveOrder (restOrder s1 ord1) ord1" by blast
      then show ?thesis by (simp add: restOrder_def)
    next
      case Market
      with True b have "s3 = saveOrder (restOrder s1 ord3) ord3" by blast
      then show ?thesis by (simp add: restOrder_def)
    qed
  qed
  have "noSelfTrade ts3 \<and> noSelfTrade (trades s1)"
    using noSelfTrade_loop [OF m] h by (simp add: noSelfTrade_def)
  then show "noSelfTrade ts3 \<and> noSelfTrade (trades s3)"
    by (simp add: t)
next
  assume h: "valid cfg s pl pr sd ty qty prc
      \<and> bestOpposing s (newOrder clk s gid (playerId pl) (name pl) pr sd ty qty prc) = Some opp
      \<and> oplayerId opp = playerId pl"
  let ?s0 = "s\<lparr>nextId := nextId s + 1, tick := tick s + 2\<rparr>"
  let ?o0 = "newOrder clk s gid (playerId pl) (name pl) pr sd ty qty prc"
  have "bestOpposing ?s0 ?o0 = Some opp"
    using h by (auto simp: bestOpposing_def split: if_splits)
  then have "stops ?s0 ?o0"
    using h by (auto simp: stops_def matchable_def)
  then have m: "matchOrder clk ?s0 ?o0 = Some (?s0, ?o0, [])"
    unfolding matchOrder_def by (rule matchOrder_loop_stops)
  define o2 where "o2 = (if qty > 0 \<and> ty = Market
        then ?o0\<lparr>price := Some (if sd = Buy then 999999 else 1), orderType := Limit\<rparr> else ?o0)"
  define s2 where "s2 = (if qty > 0 then saveOrder (restOrder ?s0 o2) o2 else saveOrder ?s0 o2)"
  have r: "submitOrder cfg clk s gid pl pr sd ty qty prc = Some (s2, Inr (o2, []))"
    unfolding submitOrder_valid [OF conjunct1 [OF h]] m
    by (cases ty) (simp_all add: o2_def s2_def)
  have pl: "map (\<lambda>(k, p). (k, cash p, inventory p)) (players s2)
          = map (\<lambda>(k, p). (k, cash p, inventory p)) (players s)"
  proof -
    have "map (\<lambda>(k, p). (k, cash p, inventory p)) (players (restOrder ?s0 o2))
          = map (\<lambda>(k, p). (k, cash p, inventory p)) (players ?s0)"
      unfolding restOrder_def
      using updPlayer_projection [of "\<lambda>(k, p). (k, cash p, inventory p)" "oplayerId o2"
              "\<lambda>p. player_addOrder p (orderId o2)" "updBook (product o2) (\<lambda>ob. addOrder ob o2) ?s0"]
      by (simp add: player_addOrder_def)
    then show ?thesis by (simp add: s2_def)
  qed
  have tc: "totalCash s2 = totalCash s"
  proof -
    have "map (\<lambda>(k, c, i). c) (map (\<lambda>(k, p). (k, cash p, inventory p)) (players s2))
        = map (\<lambda>(k, c, i). c) (map (\<lambda>(k, p). (k, cash p, inventory p)) (players s))"
      using pl by simp
    then show ?thesis by (simp add: totalCash_def case_prod_unfold comp_def)
  qed
  have ti: "totalInventory s2 p = totalInventory s p" for p
  proof -
    have "map (\<lambda>(k, c, i). lookup0 i p) (map (\<lambda>(k, p). (k, cash p, inventory p)) (players s2))
        = map (\<lambda>(k, c, i). lookup0 i p) (map (\<lambda>(k, p). (k, cash p, inventory p)) (players s))"
      using pl by simp
    then show ?thesis by (simp add: totalInventory_def case_prod_unfold comp_def)
  qed
  have "remainingQuantity o2 = qty" "trades s2 = trades s"
    by (simp_all add: o2_def s2_def restOrder_def)
  with r tc ti
  show "\<exists>s2 ord. submitOrder cfg clk s gid pl pr sd ty qty prc = Some (s2, Inr (ord, []))
         \<and> remainingQuantity ord = qty \<and> trades s2 = trades s
         \<and> totalCash s2 = totalCash s \<and> (\<forall>p. totalInventory s2 p = totalInventory s p)"
    by blast
qed

theorem self_trade_prevention_witness:
  "map_option snd (submitOrder exampleConfig wallClock restingState 0
       (alice\<lparr>openOrderIds := [10]\<rparr>) ''bread'' Buy Limit 5 (Some 3))
     = Some (Inr (limitOrder 11 alice ''bread'' Buy 5 3 1002, []))"
proof -
  let ?pl = "alice\<lparr>openOrderIds := [10]\<rparr>"
  let ?opp = "limitOrder 10 alice ''bread'' Sell 5 3 1000"
  have h: "valid exampleConfig restingState ?pl ''bread'' Buy Limit 5 (Some 3)
      \<and> bestOpposing restingState
            (newOrder wallClock restingState 0 (playerId ?pl) (name ?pl) ''bread'' Buy Limit 5 (Some 3))
          = Some ?opp
      \<and> oplayerId ?opp = playerId ?pl"
    by (simp add: valid_def bestOpposing_def example_defs engine_defs)
  from self_trade_prevention [where s = restingState and cfg = exampleConfig and pl = ?pl
      and pr = "''bread''" and sd = Buy and ty = Limit and qty = 5 and prc = "Some 3"
      and clk = wallClock and gid = 0 and opp = ?opp] h
  obtain s2 ord where "submitOrder exampleConfig wallClock restingState 0 ?pl ''bread'' Buy Limit 5 (Some 3)
       = Some (s2, Inr (ord, []))"
    by blast
  moreover have "map_option snd (submitOrder exampleConfig wallClock restingState 0 ?pl
       ''bread'' Buy Limit 5 (Some 3))
     = Some (Inr (limitOrder 11 alice ''bread'' Buy 5 3 1002, []))"
    by (simp add: example_defs engine_defs matchOrder_loop.simps)
  ultimately show ?thesis by simp
qed

section \<open>A re-check that fails\<close>

lemma recheckFails_executeTrade:
  assumes "recheckFails s inc rst"
  shows "executeTrade clk s inc rst = (s, inc, None)"
  using assms
  by (cases "side inc = Buy") (auto simp: recheckFails_def executeTrade_def Let_def)

lemma filter_filter_same [simp]: "filter P (filter P xs) = filter P xs"
  by (induction xs) auto

lemma bestOpposing_afterTrade [simp]:
  "bestOpposing (afterTrade inc s) inc = bestOpposing s inc"
  by (simp add: bestOpposing_def afterTrade_def getBestAsk_def getBestBid_def cleanup_def)

lemma recheckFails_afterTrade [simp]:
  "recheckFails (afterTrade inc' s) inc rst = recheckFails s inc rst"
  by (simp add: recheckFails_def)

lemma stops_not_continues: "stops s inc \<Longrightarrow> \<not> continues s inc opp"
  by (auto simp: stops_def continues_def)

lemma matchOrder_loop_recheck:
  assumes "continues s inc opp" "recheckFails s inc opp"
  shows "matchOrder_loop clk s inc ts = None"
proof (rule ccontr)
  assume "matchOrder_loop clk s inc ts \<noteq> None"
  then obtain r where "matchOrder_loop clk s inc ts = Some r" by auto
  then have "\<not> (\<exists>opp. continues s inc opp \<and> recheckFails s inc opp)"
  proof (induction rule: matchOrder_loop_induct)
    case (stop s inc ts)
    then show ?case using stops_not_continues by blast
  next
    case (step s inc ts opp s1 inc1 t r)
    show ?case
    proof
      assume "\<exists>opp. continues s inc opp \<and> recheckFails s inc opp"
      then obtain opp' where o: "continues s inc opp'" "recheckFails s inc opp'" by blast
      have "opp' = opp" using o(1) step.hyps(1) by (simp add: continues_def)
      then have e: "s1 = s" "inc1 = inc" "t = None"
        using recheckFails_executeTrade [OF o(2), of clk] step.hyps(2) by simp_all
      have "continues (afterTrade inc s) inc opp"
        using step.hyps(1) by (simp add: continues_def)
      moreover have "recheckFails (afterTrade inc s) inc opp"
        using o(2) \<open>opp' = opp\<close> by simp
      ultimately show False using step.IH unfolding e by blast
    qed
  qed
  with assms show False by blast
qed

lemmas trade_defs = executeTrade_def settle_def history_def fill_def addTrade_def
  player_removeOrder_def saveTrade_def mutated_def cleanup_def

lemma overdrawn_reached:
  "submitOrder exampleConfig wallClock carolBids 0 dave ''bread'' Sell Limit 1 (Some 10)
     = Some (overdrawn,
             Inr (fill wallClock 9 (limitOrder 22 dave ''bread'' Sell 1 10 1004) 23 1 (Some 10),
                  [breadTrade]))"
  by (simp add: carolBids_def overdrawn_def breadTrade_def carol_def dave_def example_defs
        engine_defs trade_defs matchOrder_loop.simps fun_eq_iff)

lemma overdrawn_stuck:
  "continues (overdrawn\<lparr>nextId := 25, tick := 13\<rparr>) (limitOrder 24 dave ''veggies'' Sell 1 10 1011)
      (limitOrder 21 carol ''veggies'' Buy 1 10 1002)
   \<and> recheckFails (overdrawn\<lparr>nextId := 25, tick := 13\<rparr>) (limitOrder 24 dave ''veggies'' Sell 1 10 1011)
      (limitOrder 21 carol ''veggies'' Buy 1 10 1002)"
  by (simp add: continues_def recheckFails_def bestOpposing_def matchable_def overdrawn_def
        carol_def dave_def example_defs engine_defs)

text \<open>
  C1, on the code. When the re-check fails, \<^verbatim>\<open>executeTrade\<close> returns no trade and changes
  nothing (\<open>recheckFails_executeTrade\<close>), but \<^verbatim>\<open>matchOrder\<close> has no \<^verbatim>\<open>break\<close> for that case:
  the loop peeks the same opposing order again, for ever (\<open>matchOrder_loop_recheck\<close>). In
  state \<open>overdrawn\<close>, reached by an ordinary trade, dave's sell order for veggies meets
  carol's bid, carol's cash is short, and \<^verbatim>\<open>submitOrder\<close> never returns.
\<close>

theorem recheck_failure_never_returns:
  "submitOrder exampleConfig wallClock overdrawn 0
      (dave\<lparr>cash := 110,
            inventory := [(''bread'', 0), (''veggies'', 1), (''cheese'', 0), (''meat'', 0)],
            tradeHistory := [23]\<rparr>)
      ''veggies'' Sell Limit 1 (Some 10) = None"
proof -
  let ?pl = "dave\<lparr>cash := 110,
            inventory := [(''bread'', 0), (''veggies'', 1), (''cheese'', 0), (''meat'', 0)],
            tradeHistory := [23]\<rparr>"
  have v: "valid exampleConfig overdrawn ?pl ''veggies'' Sell Limit 1 (Some 10)"
    by (simp add: valid_def exampleConfig_def lookup0_def dave_def newPlayer_def)
  have o: "newOrder wallClock overdrawn 0 (playerId ?pl) (name ?pl) ''veggies'' Sell Limit 1 (Some 10)
             = limitOrder 24 dave ''veggies'' Sell 1 10 1011"
    by (simp add: newOrder_def limitOrder_def overdrawn_def wallClock_def dave_def newPlayer_def)
  have s: "overdrawn\<lparr>nextId := nextId overdrawn + 1, tick := tick overdrawn + 2\<rparr>
             = overdrawn\<lparr>nextId := 25, tick := 13\<rparr>"
    by (simp add: overdrawn_def)
  have "matchOrder wallClock (overdrawn\<lparr>nextId := 25, tick := 13\<rparr>)
          (limitOrder 24 dave ''veggies'' Sell 1 10 1011) = None"
    unfolding matchOrder_def
    by (rule matchOrder_loop_recheck
          [OF conjunct1 [OF overdrawn_stuck] conjunct2 [OF overdrawn_stuck]])
  then show ?thesis
    unfolding submitOrder_valid [OF v] o s by simp
qed

section \<open>Timestamps\<close>

lemma loop_timestamps:
  assumes "matchOrder_loop clk s inc ts = Some r"
  shows "tick s \<le> tick (fst r)
       \<and> (\<exists>new ks. snd (snd r) = ts @ new \<and> map executedAt new = map clk ks
             \<and> sorted_wrt (<) ks \<and> (\<forall>k \<in> set ks. tick s \<le> k \<and> k < tick (fst r)))"
  using assms
proof (induction rule: matchOrder_loop_induct)
  case (stop s inc ts)
  have "\<exists>new ks. snd (snd (s, inc, ts)) = ts @ new \<and> map executedAt new = map clk ks
        \<and> sorted_wrt (<) ks \<and> (\<forall>k \<in> set ks. tick s \<le> k \<and> k < tick (fst (s, inc, ts)))"
    by (intro exI [of _ "[]"]) simp
  then show ?case by simp
next
  case (step s inc ts opp s1 inc1 t r)
  show ?case
  proof (cases t)
    case None
    have "s1 = s" using executeTrade_None [OF step.hyps(2) [unfolded None]] by simp
    then show ?thesis using step.IH unfolding None by simp
  next
    case (Some t')
    note e = step.hyps(2) [unfolded Some]
    have tk: "tick (afterTrade inc s1) = tick s + 5"
      using executeTrade_state(3) [OF e] by simp
    have ex: "executedAt t' = clk (tick s)"
      using executeTrade_trade(4) [OF e] .
    have ih0: "tick s + 5 \<le> tick (fst r)
       \<and> (\<exists>new ks. snd (snd r) = (ts @ [t']) @ new \<and> map executedAt new = map clk ks
             \<and> sorted_wrt (<) ks \<and> (\<forall>k \<in> set ks. tick s + 5 \<le> k \<and> k < tick (fst r)))"
      using step.IH unfolding Some tk by simp
    then obtain new ks where
      ih: "tick s + 5 \<le> tick (fst r)" "snd (snd r) = (ts @ [t']) @ new"
        "map executedAt new = map clk ks" "sorted_wrt (<) ks"
        "\<forall>k \<in> set ks. tick s + 5 \<le> k \<and> k < tick (fst r)"
      by blast
    have "snd (snd r) = ts @ (t' # new)" using ih(2) by simp
    moreover have "map executedAt (t' # new) = map clk (tick s # ks)"
      using ih(3) ex by simp
    moreover have "sorted_wrt (<) (tick s # ks)"
      using ih(4,5) by auto
    moreover have "\<forall>k \<in> set (tick s # ks). tick s \<le> k \<and> k < tick (fst r)"
      using ih(1,5) by auto
    moreover have "tick s \<le> tick (fst r)" using ih(1) by simp
    ultimately show ?thesis by blast
  qed
qed

lemma sorted_map_mono:
  assumes "sorted_wrt (<) (ks :: nat list)" "\<forall>i j. i \<le> j \<longrightarrow> clk i \<le> (clk j :: int)"
  shows "sorted (map clk ks)"
  using assms by (induction ks) (auto simp: less_imp_le)

lemma twoAsks_reached:
  "submitOrder exampleConfig sameMillisecond (newState [(1, alice), (2, bob)] 10) 0 alice
       ''bread'' Sell Limit 3 (Some 7) = Some (oneAsk, Inr (tiedAsk 10, []))
   \<and> submitOrder exampleConfig sameMillisecond oneAsk 0 (alice\<lparr>openOrderIds := [10]\<rparr>)
       ''bread'' Sell Limit 3 (Some 7) = Some (twoAsks, Inr (tiedAsk 11, []))"
  by (simp add: oneAsk_def twoAsks_def tiedAsk_def sameMillisecond_def example_defs
        engine_defs askCmp_def matchOrder_loop.simps fun_eq_iff)

text \<open>
  C8, as the code has it. \<^verbatim>\<open>createdAt\<close> and \<^verbatim>\<open>executedAt\<close> are readings of the wall clock
  (\<^verbatim>\<open>new Date()\<close>), taken when the order and each trade is constructed; there is no
  counter. The order's reading is the first of the submission and the trades' readings
  follow in order, so under a clock that never goes back the timestamps of a submission
  are non-decreasing. Nothing makes them differ.
\<close>

theorem timestamps_are_clock_readings:
  assumes "submitOrder cfg clk s gid pl pr sd ty qty prc = Some (s', Inr (ord, ts))"
  shows "createdAt ord = clk (tick s)
       \<and> (\<exists>ks. map executedAt ts = map clk ks \<and> sorted_wrt (<) ks
             \<and> (\<forall>k \<in> set ks. tick s < k \<and> k < tick s'))
       \<and> ((\<forall>i j. i \<le> j \<longrightarrow> clk i \<le> clk j) \<longrightarrow> sorted (createdAt ord # map executedAt ts))"
proof -
  let ?s0 = "s\<lparr>nextId := nextId s + 1, tick := tick s + 2\<rparr>"
  let ?o0 = "newOrder clk s gid (playerId pl) (name pl) pr sd ty qty prc"
  from submitOrder_matchOrder [OF assms] obtain s1 ord1 where
    m: "matchOrder_loop clk ?s0 ?o0 [] = Some (s1, ord1, ts)"
    and a: "remainingQuantity ord1 > 0 \<and> ty = Limit \<Longrightarrow> s' = saveOrder (restOrder s1 ord1) ord1 \<and> ord = ord1"
    and b: "remainingQuantity ord1 > 0 \<and> ty = Market \<Longrightarrow>
       ord = ord1\<lparr>price := Some (if sd = Buy then 999999 else 1), orderType := Limit\<rparr>
       \<and> s' = saveOrder (restOrder s1 ord) ord"
    and c: "\<not> remainingQuantity ord1 > 0 \<Longrightarrow> s' = saveOrder s1 ord1 \<and> ord = ord1"
    by blast
  have c1: "createdAt ord1 = clk (tick s)"
    using loop_incoming [OF m] by simp
  have co: "createdAt ord = createdAt ord1" and tk: "tick s' = tick s1"
  proof -
    consider "\<not> remainingQuantity ord1 > 0" | "remainingQuantity ord1 > 0 \<and> ty = Limit"
      | "remainingQuantity ord1 > 0 \<and> ty = Market"
      by (cases ty) auto
    then have "createdAt ord = createdAt ord1 \<and> tick s' = tick s1"
    proof cases
      case 1
      from c [OF this] show ?thesis by simp
    next
      case 2
      from a [OF this] show ?thesis by (simp add: restOrder_def)
    next
      case 3
      from b [OF this]
      have o: "ord = ord1\<lparr>price := Some (if sd = Buy then 999999 else 1), orderType := Limit\<rparr>"
        and s: "s' = saveOrder (restOrder s1 ord) ord"
        by blast+
      have "createdAt ord = createdAt ord1" unfolding o by simp
      moreover have "tick s' = tick s1" unfolding s by (simp add: restOrder_def)
      ultimately show ?thesis by simp
    qed
    then show "createdAt ord = createdAt ord1" "tick s' = tick s1" by simp_all
  qed
  have "\<exists>ks. map executedAt ts = map clk ks \<and> sorted_wrt (<) ks
           \<and> (\<forall>k \<in> set ks. tick s + 2 \<le> k \<and> k < tick s1)"
    using loop_timestamps [OF m] by simp
  then obtain ks where
    k: "map executedAt ts = map clk ks" "sorted_wrt (<) ks"
       "\<forall>k \<in> set ks. tick s + 2 \<le> k \<and> k < tick s1"
    by blast
  have k': "\<forall>k \<in> set ks. tick s < k \<and> k < tick s'"
    using k(3) tk by auto
  have "sorted (createdAt ord # map executedAt ts)" if mono: "\<forall>i j. i \<le> j \<longrightarrow> clk i \<le> clk j"
  proof -
    have "sorted_wrt (<) (tick s # ks)" using k(2) k' by auto
    from sorted_map_mono [OF this mono] show ?thesis
      using k(1) co c1 by simp
  qed
  moreover have "\<exists>ks. map executedAt ts = map clk ks \<and> sorted_wrt (<) ks
             \<and> (\<forall>k \<in> set ks. tick s < k \<and> k < tick s')"
    using k(1,2) k' by blast
  moreover have "createdAt ord = clk (tick s)"
    using co c1 by simp
  ultimately show ?thesis by simp
qed

theorem timestamps_are_clock_readings_witness:
  "map_option (\<lambda>(s', r). (createdAt (fst (projr r)), map executedAt (snd (projr r))))
     (submitOrder exampleConfig wallClock restingState 0 bob ''bread'' Buy Limit 5 (Some 3))
     = Some (1002, [1004])"
proof -
  let ?r = "submitOrder exampleConfig wallClock restingState 0 bob ''bread'' Buy Limit 5 (Some 3)"
  have e: "map_option (\<lambda>(s', r). (createdAt (fst (projr r)), map executedAt (snd (projr r)))) ?r
     = Some (1002, [1004])"
    by (simp add: example_defs engine_defs trade_defs matchOrder_loop.simps)
  have "\<exists>s' ord ts. ?r = Some (s', Inr (ord, ts))"
    by (simp add: example_defs engine_defs trade_defs matchOrder_loop.simps)
  then obtain s' ord ts where r: "?r = Some (s', Inr (ord, ts))"
    by blast
  from timestamps_are_clock_readings [OF r]
  have "createdAt ord = wallClock (tick restingState)"
    by simp
  with e r show ?thesis by simp
qed

text \<open>
  The claim as written fails when the clock does not advance between two readings: the two
  orders of \<open>twoAsks\<close> have the same \<^verbatim>\<open>createdAt\<close>, and the two trades of bob's buy order
  for 4 bread (against order 10, then order 11) have the same \<^verbatim>\<open>executedAt\<close>.
\<close>

theorem timestamps_tie_counterexample:
  "submitOrder exampleConfig sameMillisecond (newState [(1, alice), (2, bob)] 10) 0 alice
       ''bread'' Sell Limit 3 (Some 7) = Some (oneAsk, Inr (tiedAsk 10, []))
   \<and> submitOrder exampleConfig sameMillisecond oneAsk 0 (alice\<lparr>openOrderIds := [10]\<rparr>)
       ''bread'' Sell Limit 3 (Some 7) = Some (twoAsks, Inr (tiedAsk 11, []))
   \<and> createdAt (tiedAsk 10) = createdAt (tiedAsk 11)
   \<and> map_option (\<lambda>(s', r). map (\<lambda>t. (sellOrderId t, tquantity t, executedAt t)) (snd (projr r)))
        (submitOrder exampleConfig sameMillisecond twoAsks 0 bob ''bread'' Buy Limit 4 (Some 7))
       = Some [(10, 3, 1000), (11, 1, 1000)]"
proof -
  have "map_option (\<lambda>(s', r). map (\<lambda>t. (sellOrderId t, tquantity t, executedAt t)) (snd (projr r)))
        (submitOrder exampleConfig sameMillisecond twoAsks 0 bob ''bread'' Buy Limit 4 (Some 7))
       = Some [(10, 3, 1000), (11, 1, 1000)]"
    by (simp add: twoAsks_def tiedAsk_def sameMillisecond_def example_defs
        engine_defs trade_defs matchOrder_loop.simps)
  moreover have "createdAt (tiedAsk 10) = createdAt (tiedAsk 11)"
    by (simp add: tiedAsk_def limitOrder_def)
  ultimately show ?thesis using twoAsks_reached by simp
qed

section \<open>Final scores and the leaderboard\<close>


















lemma length_withRanks [simp]: "length (withRanks es) = length es"
  by (simp add: withRanks_def)
















end
